(* ===== verification/Prelude.thy ===== *)
theory Prelude
  imports Main "HOL-Library.Word" "HOL-Library.Multiset"
begin

text \<open>
  Shared vocabulary of the reddit feed development: the names of the model's types
  (identifiers, channels, the redis key space), the log lines the Go code emits, and
  generic lemmas on lists that the component theories use.  Go strings are byte
  sequences; they are modelled as \<^typ>\<open>string\<close>, whose characters are bytes.
\<close>

section \<open>Types of the model\<close>

type_synonym reddit_id = string
type_synonym channel_id = string
type_synonym redis_key = string

text \<open>The redis database, as far as the feed reads and writes it: a map from keys to
  stored byte strings.\<close>

type_synonym redis_store = "redis_key \<Rightarrow> string option"

text \<open>
  The log lines of \<^verbatim>\<open>src/reddit/redditbot.go\<close>, one constructor per
  \<^verbatim>\<open>logrus\<close> call.  Logging is the only observable effect of the error paths, so
  the model records it.
\<close>

datatype log_entry =
    LogFoundLastIds                       \<comment> \<open>runBot, line 50\<close>
  | LogFetchError                         \<comment> \<open>runBot, line 66\<close>
  | LogRetrieveBufferError                \<comment> \<open>getLastIds, line 85\<close>
  | LogConfigError                        \<comment> \<open>handlePost, line 98\<close>
  | LogFoundMatchedPost nat string        \<comment> \<open>handlePost, lines 122--125\<close>
  | LogPostError channel_id               \<comment> \<open>handlePost, line 164\<close>
  | LogParseIdError string                \<comment> \<open>RedditIdSlice.Less, lines 184, 187\<close>

section \<open>Shared lemma collections\<close>

named_theorems order_simps "facts on the order of reddit ids, used by the sorting and window proofs"
named_theorems json_simps "evaluation facts of the JSON codec"

section \<open>Generic list lemmas\<close>

text \<open>First-occurrence deduplication, the order a Go loop that appends unseen elements
  produces (HOL's \<^const>\<open>remdups\<close> keeps last occurrences).\<close>

definition remdups_first :: "'a list \<Rightarrow> 'a list" where
  "remdups_first xs = rev (remdups (rev xs))"

lemma remdups_first_Nil [simp]: "remdups_first [] = []"
  by (simp add: remdups_first_def)

lemma remdups_first_snoc [simp]:
  "remdups_first (xs @ [x]) = (if x \<in> set xs then remdups_first xs else remdups_first xs @ [x])"
  by (simp add: remdups_first_def)

lemma set_remdups_first [simp]: "set (remdups_first xs) = set xs"
  by (simp add: remdups_first_def)

lemma distinct_remdups_first [simp]: "distinct (remdups_first xs)"
  by (simp add: remdups_first_def)

lemma sorted_wrt_filter_take:
  "sorted_wrt R xs \<Longrightarrow> sorted_wrt R (take n (filter P xs))"
  by (simp add: sorted_wrt_filter)

lemma set_take_filter_subset: "set (take n (filter P xs)) \<subseteq> {x \<in> set xs. P x}"
  by (auto dest: in_set_takeD)

lemma card_le_subset: "card B \<le> N \<Longrightarrow> finite B \<Longrightarrow> A \<subseteq> B \<Longrightarrow> card A \<le> N"
  using card_mono by (blast intro: le_trans)

end
