(* ===== verification/GoStrconv.thy ===== *)
theory GoStrconv
  imports Prelude
begin

unbundle bit_operations_syntax

text \<open>
  Go's \<^verbatim>\<open>strconv.ParseInt(s, 36, 64)\<close>, the decoder that
  \<^verbatim>\<open>RedditIdSlice.Less\<close> (\<^verbatim>\<open>src/reddit/redditbot.go\<close>, lines 181--182) applies
  to both identifiers.  The model follows the standard library's \<^verbatim>\<open>ParseUint\<close> /
  \<^verbatim>\<open>ParseInt\<close> for base 36 and bit size 64 byte by byte: the digit decoding with
  \<^verbatim>\<open>lower(c) = c | ('x' - 'X')\<close>, the \<^verbatim>\<open>cutoff\<close> test before the multiplication,
  the wrap-around test after the addition (on a \<^typ>\<open>64 word\<close>, where it really
  wraps), and the clamping of out-of-range results.  An int64 result is a
  \<^typ>\<open>64 word\<close> read by \<^const>\<open>sint\<close>.
\<close>

type_synonym u64 = "64 word"

datatype num_error = ErrSyntax | ErrRange

section \<open>Digits\<close>

definition lower :: "char \<Rightarrow> char" where
  "lower c = char_of (of_char c OR (32::nat))"

definition digit_val :: "char \<Rightarrow> nat option" where
  "digit_val c =
     (let b = (of_char c :: nat); l = (of_char (lower c) :: nat) in
      if 48 \<le> b \<and> b \<le> 57 then Some (b - 48)
      else if 97 \<le> l \<and> l \<le> 122 then Some (l - 97 + 10)
      else None)"

definition max_uint64 :: u64 where
  "max_uint64 = - 1"

definition cutoff36 :: u64 where
  "cutoff36 = max_uint64 div 36 + 1"

section \<open>ParseUint and ParseInt\<close>

text \<open>The digit loop of \<^verbatim>\<open>ParseUint\<close>.  The test \<^verbatim>\<open>n1 > maxVal\<close> is kept though
  it cannot hold at bit size 64, and so is \<^verbatim>\<open>d >= base\<close>, which no base-36 digit
  meets.\<close>

fun parse_uint_digits :: "u64 \<Rightarrow> string \<Rightarrow> u64 \<times> num_error option" where
  "parse_uint_digits n [] = (n, None)"
| "parse_uint_digits n (c # cs) =
     (case digit_val c of
        None \<Rightarrow> (0, Some ErrSyntax)
      | Some d \<Rightarrow>
          if 36 \<le> d then (0, Some ErrSyntax)
          else if cutoff36 \<le> n then (max_uint64, Some ErrRange)
          else (let n' = n * 36; n1 = n' + of_nat d in
                if n1 < n' \<or> max_uint64 < n1 then (max_uint64, Some ErrRange)
                else parse_uint_digits n1 cs))"

definition parse_uint :: "string \<Rightarrow> u64 \<times> num_error option" where
  "parse_uint s = (if s = [] then (0, Some ErrSyntax) else parse_uint_digits 0 s)"

definition parse_int :: "string \<Rightarrow> u64 \<times> num_error option" where
  "parse_int s =
     (if s = [] then (0, Some ErrSyntax)
      else
        let neg = (hd s = CHR ''-'');
            s' = (if hd s = CHR ''+'' \<or> hd s = CHR ''-'' then tl s else s);
            (un, err) = parse_uint s';
            cutoff = (2::u64) ^ 63
        in if err \<noteq> None \<and> err \<noteq> Some ErrRange then (0, err)
           else if \<not> neg \<and> cutoff \<le> un then (cutoff - 1, Some ErrRange)
           else if neg \<and> cutoff < un then (- cutoff, Some ErrRange)
           else (if neg then - un else un, None))"

text \<open>The int64 that \<^verbatim>\<open>Less\<close> compares: the value ParseInt returns, also on error.\<close>

definition go_int64 :: "string \<Rightarrow> int" where
  "go_int64 s = sint (fst (parse_int s))"

section \<open>Reference semantics: base-36 numerals\<close>

definition valid36 :: "char \<Rightarrow> bool" where
  "valid36 c \<longleftrightarrow> digit_val c \<noteq> None"

fun digits_value :: "nat \<Rightarrow> string \<Rightarrow> nat" where
  "digits_value acc [] = acc"
| "digits_value acc (c # cs) =
     digits_value (acc * 36 + (case digit_val c of None \<Rightarrow> 0 | Some d \<Rightarrow> d)) cs"

definition digit_char :: "nat \<Rightarrow> char" where
  "digit_char d = (if d < 10 then char_of (48 + d) else char_of (87 + d))"

fun encode36 :: "nat \<Rightarrow> string" where
  "encode36 n = (if n < 36 then [digit_char n] else encode36 (n div 36) @ [digit_char (n mod 36)])"

declare encode36.simps [simp del]

section \<open>Lemmas\<close>

text \<open>The definitions that evaluate ParseInt on a concrete identifier.\<close>

lemma max_uint64_numeral: "max_uint64 = 18446744073709551615"
  by (simp add: max_uint64_def)

lemmas parse_eval = go_int64_def parse_int_def parse_uint_def digit_val_def lower_def
  cutoff36_def max_uint64_numeral word_le_nat_alt

lemma digit_val_less: "digit_val c = Some d \<Longrightarrow> d < 36"
  by (auto simp: digit_val_def Let_def split: if_splits)

lemma digit_val_digit_char_all: "\<forall>d\<in>set [0..<36]. digit_val (digit_char d) = Some d"
  by (simp add: digit_val_def lower_def digit_char_def upt_rec)

lemma digit_val_digit_char: "d < 36 \<Longrightarrow> digit_val (digit_char d) = Some d"
  using digit_val_digit_char_all by simp

lemma digits_value_mono: "acc \<le> digits_value acc cs"
proof (induction cs arbitrary: acc)
  case Nil
  then show ?case by simp
next
  case (Cons c cs)
  have "acc \<le> acc * 36 + (case digit_val c of None \<Rightarrow> 0 | Some d \<Rightarrow> d)" by simp
  also have "\<dots> \<le> digits_value (acc * 36 + (case digit_val c of None \<Rightarrow> 0 | Some d \<Rightarrow> d)) cs"
    by (rule Cons.IH)
  finally show ?case by simp
qed

lemma digits_value_append: "digits_value acc (xs @ ys) = digits_value (digits_value acc xs) ys"
  by (induction xs arbitrary: acc) auto

lemma unat_cutoff36: "unat cutoff36 = 512409557603043101"
  by (simp add: cutoff36_def max_uint64_def)

lemma unat_max_uint64: "unat max_uint64 = 2 ^ 64 - 1"
  by (simp add: max_uint64_def unsigned_minus_1_eq_mask mask_eq_exp_minus_1)

lemma max_uint64_not_less [simp]: "\<not> max_uint64 < (w :: u64)"
  by (simp add: max_uint64_def)

text \<open>One round of the loop on an accumulator below the cutoff: the multiplication is
  exact, and the addition wraps exactly when the true value reaches \<open>2^64\<close>.\<close>

lemma loop_round_mult:
  "acc < 512409557603043101 \<Longrightarrow> unat ((of_nat acc :: u64) * 36) = acc * 36"
  by (simp add: unat_mult_lem [THEN iffD1] unat_of_nat)

lemma loop_round_no_wrap:
  assumes "acc < 512409557603043101" and "acc * 36 + d < 2 ^ 64"
  shows "\<not> ((of_nat acc :: u64) * 36 + of_nat d < of_nat acc * 36)"
    and "(of_nat acc :: u64) * 36 + of_nat d = of_nat (acc * 36 + d)"
proof -
  show eq: "(of_nat acc :: u64) * 36 + of_nat d = of_nat (acc * 36 + d)"
    by simp
  have "unat ((of_nat acc :: u64) * 36 + of_nat d) = acc * 36 + d"
    using unat_of_nat [of "acc * 36 + d", where 'a = 64] assms(2) by simp
  then show "\<not> ((of_nat acc :: u64) * 36 + of_nat d < of_nat acc * 36)"
    using loop_round_mult [OF assms(1)] by (simp add: word_less_nat_alt)
qed

lemma loop_round_wrap:
  assumes "acc < 512409557603043101" and "d < 36" and "2 ^ 64 \<le> acc * 36 + d"
  shows "(of_nat acc :: u64) * 36 + of_nat d < of_nat acc * 36"
proof -
  have eq: "(of_nat acc :: u64) * 36 + of_nat d = of_nat (acc * 36 + d)"
    by simp
  have "unat ((of_nat acc :: u64) * 36 + of_nat d) = (acc * 36 + d) mod 2 ^ 64"
    using unat_of_nat [of "acc * 36 + d", where 'a = 64] by simp
  also have "\<dots> = acc * 36 + d - 2 ^ 64"
    using assms by (simp add: le_mod_geq)
  finally show ?thesis
    using loop_round_mult [OF assms(1)] assms by (simp add: word_less_nat_alt)
qed




lemma valid36_digit_val: "valid36 c \<Longrightarrow> \<exists>d. digit_val c = Some d \<and> d < 36"
  by (auto simp: valid36_def dest: digit_val_less)

lemma parse_uint_digits_digit:
  "digit_val c = Some d \<Longrightarrow> d < 36 \<Longrightarrow>
   parse_uint_digits n (c # cs) =
     (if cutoff36 \<le> n then (max_uint64, Some ErrRange)
      else if n * 36 + of_nat d < n * 36 then (max_uint64, Some ErrRange)
      else parse_uint_digits (n * 36 + of_nat d) cs)"
  by (simp add: Let_def)

lemma cutoff_le_iff: "acc < 2 ^ 64 \<Longrightarrow> cutoff36 \<le> of_nat acc \<longleftrightarrow> 512409557603043101 \<le> acc"
  by (simp add: word_le_nat_alt unat_cutoff36 unat_of_nat)

lemma parse_uint_digits_value:
  assumes "list_all valid36 cs" and "acc < 2 ^ 64"
  shows "parse_uint_digits (of_nat acc) cs =
     (if digits_value acc cs < 2 ^ 64 then (of_nat (digits_value acc cs), None)
      else (max_uint64, Some ErrRange))"
  using assms
proof (induction cs arbitrary: acc)
  case Nil
  then show ?case by simp
next
  case (Cons c cs)
  from Cons.prems(1) obtain d where d: "digit_val c = Some d" and d36: "d < 36"
    by (auto dest: valid36_digit_val)
  have val: "digits_value acc (c # cs) = digits_value (acc * 36 + d) cs"
    using d by simp
  have ge: "acc * 36 + d \<le> digits_value acc (c # cs)"
    using val digits_value_mono by simp
  have step: "parse_uint_digits (of_nat acc) (c # cs) =
     (if cutoff36 \<le> of_nat acc then (max_uint64, Some ErrRange)
      else if of_nat acc * 36 + of_nat d < (of_nat acc :: u64) * 36 then (max_uint64, Some ErrRange)
      else parse_uint_digits (of_nat acc * 36 + of_nat d) cs)"
    by (rule parse_uint_digits_digit [OF d d36])
  show ?case
  proof (cases "512409557603043101 \<le> acc")
    case True
    then have "(2::nat) ^ 64 \<le> acc * 36 + d" by simp
    then have "2 ^ 64 \<le> digits_value acc (c # cs)"
      using ge by (rule order_trans)
    then show ?thesis
      using True step cutoff_le_iff [OF Cons.prems(2)] by simp
  next
    case False
    then have small: "acc < 512409557603043101" by simp
    show ?thesis
    proof (cases "acc * 36 + d < 2 ^ 64")
      case True
      have IH: "parse_uint_digits (of_nat (acc * 36 + d)) cs =
          (if digits_value (acc * 36 + d) cs < 2 ^ 64
           then (of_nat (digits_value (acc * 36 + d) cs), None)
           else (max_uint64, Some ErrRange))"
        using Cons.prems(1) True by (intro Cons.IH) simp_all
      show ?thesis
        using step cutoff_le_iff [OF Cons.prems(2)] small IH val loop_round_no_wrap(1) [OF small True]
        by simp
    next
      case big: False
      then have "2 ^ 64 \<le> digits_value acc (c # cs)"
        using ge by linarith
      then show ?thesis
        using step cutoff_le_iff [OF Cons.prems(2)] small loop_round_wrap [OF small d36] big
        by simp
    qed
  qed
qed

lemma sint_of_nat_small: "v < 2 ^ 63 \<Longrightarrow> sint (of_nat v :: u64) = int v"
  by (simp add: signed_of_nat signed_take_bit_int_eq_self)

lemma sint_neg_of_nat: "v \<le> 2 ^ 63 \<Longrightarrow> sint (- of_nat v :: u64) = - int v"
proof -
  assume v: "v \<le> 2 ^ 63"
  have "(- of_nat v :: u64) = word_of_int (- int v)" by simp
  then have "sint (- of_nat v :: u64) = (- int v + 2 ^ 63) mod 2 ^ 64 - 2 ^ 63"
    by (simp only: int_word_sint) simp
  also have "\<dots> = - int v" using v by simp
  finally show ?thesis .
qed

lemma parse_uint_value:
  "s \<noteq> [] \<Longrightarrow> list_all valid36 s \<Longrightarrow>
   parse_uint s = (if digits_value 0 s < 2 ^ 64 then (of_nat (digits_value 0 s), None)
                   else (max_uint64, Some ErrRange))"
  using parse_uint_digits_value [of s 0] by (simp add: parse_uint_def)

lemma valid36_not_sign: "valid36 c \<Longrightarrow> c \<noteq> CHR ''+'' \<and> c \<noteq> CHR ''-''"
  by (auto simp: valid36_def digit_val_def lower_def)

lemma pow63_le_of_nat: "v < 2 ^ 64 \<Longrightarrow> ((2::u64) ^ 63 \<le> of_nat v) = (2 ^ 63 \<le> v)"
  by (simp add: word_le_nat_alt unat_of_nat)

lemma pow63_le_max: "(2::u64) ^ 63 \<le> max_uint64"
  by (simp add: word_le_nat_alt unat_max_uint64)

theorem parse_int_unsigned:
  assumes "s \<noteq> []" and "list_all valid36 s"
  shows "parse_int s =
     (if digits_value 0 s < 2 ^ 63 then (of_nat (digits_value 0 s), None)
      else ((2::u64) ^ 63 - 1, Some ErrRange))"
proof -
  have hd: "hd s \<noteq> CHR ''+'' \<and> hd s \<noteq> CHR ''-''"
    using assms by (cases s) (auto dest: valid36_not_sign)
  show ?thesis
  proof (cases "digits_value 0 s < 2 ^ 64")
    case True
    then show ?thesis
      using hd parse_uint_value [OF assms] pow63_le_of_nat [OF True] assms(1)
      by (auto simp: parse_int_def Let_def)
  next
    case False
    then show ?thesis
      using hd parse_uint_value [OF assms] pow63_le_max assms(1)
      by (auto simp: parse_int_def Let_def)
  qed
qed

lemma pow63_less_of_nat: "v < 2 ^ 64 \<Longrightarrow> ((2::u64) ^ 63 < of_nat v) = (2 ^ 63 < v)"
  by (simp add: word_less_nat_alt unat_of_nat)

lemma pow63_less_max: "(2::u64) ^ 63 < max_uint64"
  by (simp add: word_less_nat_alt unat_max_uint64)

lemma parse_int_minus:
  assumes "s \<noteq> []" and "list_all valid36 s"
  shows "parse_int (CHR ''-'' # s) =
     (if digits_value 0 s \<le> 2 ^ 63 then (- of_nat (digits_value 0 s), None)
      else (- ((2::u64) ^ 63), Some ErrRange))"
proof (cases "digits_value 0 s < 2 ^ 64")
  case True
  then show ?thesis
    using parse_uint_value [OF assms] pow63_less_of_nat [OF True]
    by (auto simp: parse_int_def Let_def not_less)
next
  case False
  then show ?thesis
    using parse_uint_value [OF assms] pow63_less_max
    by (auto simp: parse_int_def Let_def)
qed

lemma parse_int_plus: "s \<noteq> [] \<Longrightarrow> list_all valid36 s \<Longrightarrow> parse_int (CHR ''+'' # s) = parse_int s"
  by (simp add: parse_int_def Let_def valid36_not_sign hd_in_set list_all_iff)

lemma parse_int_syntax_zero: "snd (parse_int s) = Some ErrSyntax \<Longrightarrow> fst (parse_int s) = 0"
  by (auto simp: parse_int_def Let_def split: if_splits prod.splits)

lemma go_int64_syntax_zero: "snd (parse_int s) = Some ErrSyntax \<Longrightarrow> go_int64 s = 0"
  by (simp add: go_int64_def parse_int_syntax_zero)

lemma go_int64_valid_sign:
  "s \<noteq> [] \<Longrightarrow> list_all valid36 s \<Longrightarrow> 0 \<le> go_int64 s \<and> (go_int64 s = 0 \<longleftrightarrow> digits_value 0 s = 0)"
  by (simp add: go_int64_def parse_int_unsigned sint_of_nat_small)

lemma encode36_nonempty: "encode36 n \<noteq> []"
  by (subst encode36.simps) simp

lemma encode36_valid: "list_all valid36 (encode36 n)"
proof (induction n rule: encode36.induct)
  case (1 n)
  then show ?case
    by (subst encode36.simps) (auto simp: list_all_iff valid36_def digit_val_digit_char)
qed

lemma digits_value_encode36: "digits_value 0 (encode36 n) = n"
proof (induction n rule: encode36.induct)
  case (1 n)
  then show ?case
    by (subst encode36.simps) (simp add: digits_value_append digit_val_digit_char)
qed

lemma parse_uint_digits_ok_valid:
  "parse_uint_digits n cs = (m, None) \<Longrightarrow> list_all valid36 cs"
proof (induction n cs rule: parse_uint_digits.induct)
  case (1 n)
  then show ?case by simp
next
  case (2 n c cs)
  then show ?case
    by (auto simp: valid36_def Let_def split: option.splits if_splits)
qed

end
