(* ===== verification/RedditIdSlice.thy ===== *)
theory RedditIdSlice
  imports GoStrconv
begin

text \<open>
  \<^verbatim>\<open>RedditIdSlice\<close> (\<^verbatim>\<open>src/reddit/redditbot.go\<close>, lines 171--198): a slice of
  reddit identifiers with the three methods of Go's \<^verbatim>\<open>sort.Interface\<close>.
  \<^verbatim>\<open>Less\<close> decodes both identifiers with \<^verbatim>\<open>strconv.ParseInt(_, 36, 64)\<close>,
  logs each decoding error, and compares the two int64 values whatever the errors were;
  so an identifier is ordered by the value ParseInt returns for it (0 after a syntax
  error, MaxInt64 or MinInt64 after a range error).  Indexing out of range panics in
  Go; the index-based methods return \<^const>\<open>None\<close> there.  The theory also holds the
  reference sort the feed applies with this order: a stable insertion sort, newest
  (largest decoded value) first, generic in the projection from elements to ids.
\<close>

section \<open>The methods\<close>

definition RedditIdSlice_Len :: "reddit_id list \<Rightarrow> nat" where
  "RedditIdSlice_Len r = length r"

text \<open>The comparison at the heart of \<^verbatim>\<open>Less\<close>: \<^verbatim>\<open>return a > b\<close> on int64.\<close>

definition id_less :: "reddit_id \<Rightarrow> reddit_id \<Rightarrow> bool" where
  "id_less x y \<longleftrightarrow> fst (parse_int y) <s fst (parse_int x)"

definition parse_log :: "reddit_id \<Rightarrow> log_entry list" where
  "parse_log s = (if snd (parse_int s) = None then [] else [LogParseIdError s])"

definition RedditIdSlice_Less :: "reddit_id list \<Rightarrow> nat \<Rightarrow> nat \<Rightarrow> (log_entry list \<times> bool) option" where
  "RedditIdSlice_Less r i j =
     (if i < length r \<and> j < length r
      then Some (parse_log (r ! i) @ parse_log (r ! j), id_less (r ! i) (r ! j))
      else None)"

definition RedditIdSlice_Swap :: "reddit_id list \<Rightarrow> nat \<Rightarrow> nat \<Rightarrow> reddit_id list option" where
  "RedditIdSlice_Swap r i j =
     (if i < length r \<and> j < length r
      then (let temp = r ! i; r' = r[i := r ! j] in Some (r'[j := temp]))
      else None)"

section \<open>The reference sort: newest first, stable\<close>

fun insert_by_id :: "('a \<Rightarrow> reddit_id) \<Rightarrow> 'a \<Rightarrow> 'a list \<Rightarrow> 'a list" where
  "insert_by_id f x [] = [x]"
| "insert_by_id f x (y # ys) =
     (if id_less (f y) (f x) then y # insert_by_id f x ys else x # y # ys)"

fun sort_by_id :: "('a \<Rightarrow> reddit_id) \<Rightarrow> 'a list \<Rightarrow> 'a list" where
  "sort_by_id f [] = []"
| "sort_by_id f (x # xs) = insert_by_id f x (sort_by_id f xs)"

text \<open>Newest first: every element is at least as new as every later one.\<close>

definition newest_first :: "('a \<Rightarrow> reddit_id) \<Rightarrow> 'a list \<Rightarrow> bool" where
  "newest_first f xs \<longleftrightarrow> sorted_wrt (\<lambda>a b. go_int64 (f b) \<le> go_int64 (f a)) xs"

section \<open>Lemmas\<close>

lemma id_less_iff [order_simps]: "id_less x y \<longleftrightarrow> go_int64 y < go_int64 x"
  by (simp add: id_less_def go_int64_def word_sless_alt)

lemma insert_by_id_sort_key:
  "insert_by_id f x xs = insort_key (\<lambda>a. - go_int64 (f a)) x xs"
  by (induction xs) (auto simp: id_less_iff)

lemma sort_by_id_sort_key [order_simps]:
  "sort_by_id f xs = sort_key (\<lambda>a. - go_int64 (f a)) xs"
  by (induction xs) (simp_all add: insert_by_id_sort_key)

lemma newest_first_sort_key_iff:
  "newest_first f xs \<longleftrightarrow> sorted (map (\<lambda>a. - go_int64 (f a)) xs)"
  by (simp add: newest_first_def sorted_map)

lemma mset_sort_by_id [simp]: "mset (sort_by_id f xs) = mset xs"
  by (simp add: sort_by_id_sort_key)

lemma set_sort_by_id [simp]: "set (sort_by_id f xs) = set xs"
  by (simp add: sort_by_id_sort_key)

lemma length_sort_by_id [simp]: "length (sort_by_id f xs) = length xs"
  by (simp add: sort_by_id_sort_key)

lemma distinct_sort_by_id [simp]: "distinct (sort_by_id f xs) = distinct xs"
  by (metis mset_sort_by_id mset_eq_imp_distinct_iff)

lemma newest_first_sort_by_id: "newest_first f (sort_by_id f xs)"
  by (simp add: newest_first_sort_key_iff sort_by_id_sort_key)

lemma newest_first_take: "newest_first f xs \<Longrightarrow> newest_first f (take n xs)"
  by (simp add: newest_first_def)



lemma insert_by_id_append_older:
  "\<forall>y\<in>set Y. \<not> id_less (f y) (f a) \<Longrightarrow> insert_by_id f a (X @ Y) = insert_by_id f a X @ Y"
proof (induction X)
  case Nil
  then show ?case by (cases Y) auto
next
  case (Cons x X)
  then show ?case by simp
qed

lemma insert_by_id_append_newer:
  "\<forall>y\<in>set X. id_less (f y) (f a) \<Longrightarrow> insert_by_id f a (X @ Y) = X @ insert_by_id f a Y"
  by (induction X) auto

lemma id_less_asym: "id_less a b \<Longrightarrow> \<not> id_less b a"
  by (simp add: id_less_iff)

text \<open>When every element that satisfies \<open>P\<close> is strictly newer than every element
  that does not, the sort puts the \<open>P\<close> elements first, each group sorted on its own.\<close>

lemma sort_by_id_partition:
  assumes "\<forall>x\<in>set xs. \<forall>y\<in>set xs. P x \<longrightarrow> \<not> P y \<longrightarrow> id_less (f x) (f y)"
  shows "sort_by_id f xs = sort_by_id f (filter P xs) @ sort_by_id f (filter (\<lambda>x. \<not> P x) xs)"
  using assms
proof (induction xs)
  case Nil
  then show ?case by simp
next
  case (Cons x xs)
  then have IH: "sort_by_id f xs = sort_by_id f (filter P xs) @ sort_by_id f (filter (\<lambda>x. \<not> P x) xs)"
    by simp
  show ?case
  proof (cases "P x")
    case True
    have "\<forall>y\<in>set (sort_by_id f (filter (\<lambda>x. \<not> P x) xs)). \<not> id_less (f y) (f x)"
      using Cons.prems True by (auto dest: id_less_asym)
    then show ?thesis
      using True IH by (simp add: insert_by_id_append_older)
  next
    case False
    have "\<forall>y\<in>set (sort_by_id f (filter P xs)). id_less (f y) (f x)"
      using Cons.prems False by auto
    then show ?thesis
      using False IH by (simp add: insert_by_id_append_newer)
  qed
qed

lemma newest_first_drop:
  assumes "newest_first f xs" and "x \<in> set (take n xs)" and "y \<in> set (drop n xs)"
  shows "go_int64 (f y) \<le> go_int64 (f x)"
proof -
  have "sorted_wrt (\<lambda>a b. go_int64 (f b) \<le> go_int64 (f a)) (take n xs @ drop n xs)"
    using assms(1) by (simp add: newest_first_def)
  then show ?thesis
    using assms(2,3) unfolding sorted_wrt_append by blast
qed


end
