(* ===== verification/RedisJson.thy ===== *)
theory RedisJson
  imports Prelude
begin

text \<open>
  Persistence of the last-seen window: \<^verbatim>\<open>getLastIds\<close>
  (\<^verbatim>\<open>src/reddit/redditbot.go\<close>, lines 81--89) reads the JSON array of strings stored
  under the redis key \<^verbatim>\<open>reddit_last_links\<close> through \<^verbatim>\<open>common.GetRedisJson\<close>; the
  fetcher writes it back with \<^verbatim>\<open>common.SetRedisJson\<close>.  The two common helpers and
  the JSON codec are outside \<^verbatim>\<open>src/\<close> and are modelled from the spec (section 6: a
  single JSON-encoded array of identifier strings under a well-known key).  The encoder
  escapes quote, backslash and the control bytes (as \<^verbatim>\<open>\u00XX\<close>); the decoder is a
  byte-level automaton for \<^verbatim>\<open>json.Unmarshal\<close> into a \<^verbatim>\<open>[]string\<close>: it accepts
  JSON whitespace, the short escapes and \<^verbatim>\<open>\uXXXX\<close> below 128, numbers by the JSON
  number grammar and the literals \<^verbatim>\<open>true\<close>, \<^verbatim>\<open>false\<close>, \<^verbatim>\<open>null\<close>.  A syntax
  error yields no slice; a number or boolean element leaves \<open>''''\<close> in its slot and
  raises a type error while the rest of the array is still decoded, as
  \<^verbatim>\<open>encoding/json\<close> does; a \<^verbatim>\<open>null\<close> element leaves \<open>''''\<close> without error and
  a top-level \<^verbatim>\<open>null\<close> gives the nil slice.  \<^verbatim>\<open>getLastIds\<close> logs any error and
  returns the slice it got, as line 88 does.
\<close>

section \<open>Encoding\<close>

definition quote_char :: char where
  "quote_char = CHR 0x22"

definition backslash_char :: char where
  "backslash_char = CHR 0x5C"

definition hex_char :: "nat \<Rightarrow> char" where
  "hex_char d = (if d < 10 then char_of (48 + d) else char_of (87 + d))"

definition json_escape :: "char \<Rightarrow> string" where
  "json_escape c =
     (if c = quote_char \<or> c = backslash_char then [backslash_char, c]
      else if of_char c < (32::nat)
      then [backslash_char, CHR ''u'', CHR ''0'', CHR ''0'',
            hex_char (of_char c div 16), hex_char (of_char c mod 16)]
      else [c])"

definition json_string :: "string \<Rightarrow> string" where
  "json_string s = quote_char # concat (map json_escape s) @ [quote_char]"

definition encode_json :: "string list \<Rightarrow> string" where
  "encode_json xs =
     (case xs of
        [] \<Rightarrow> ''[]''
      | y # ys \<Rightarrow> CHR ''['' # json_string y @ concat (map (\<lambda>s. CHR '','' # json_string s) ys) @ '']'')"

section \<open>Decoding\<close>

definition is_ws :: "char \<Rightarrow> bool" where
  "is_ws c \<longleftrightarrow> c = CHR '' '' \<or> c = CHR 0x09 \<or> c = CHR 0x0A \<or> c = CHR 0x0D"

definition hex_val :: "char \<Rightarrow> nat option" where
  "hex_val c =
     (let b = (of_char c :: nat) in
      if 48 \<le> b \<and> b \<le> 57 then Some (b - 48)
      else if 97 \<le> b \<and> b \<le> 102 then Some (b - 87)
      else if 65 \<le> b \<and> b \<le> 70 then Some (b - 55)
      else None)"

definition short_escape :: "char \<Rightarrow> char option" where
  "short_escape c =
     (if c = quote_char \<or> c = backslash_char \<or> c = CHR ''/'' then Some c
      else if c = CHR ''b'' then Some (CHR 0x08)
      else if c = CHR ''f'' then Some (CHR 0x0C)
      else if c = CHR ''n'' then Some (CHR 0x0A)
      else if c = CHR ''r'' then Some (CHR 0x0D)
      else if c = CHR ''t'' then Some (CHR 0x09)
      else None)"

text \<open>The states of a JSON number, after: the minus sign, a leading zero, integer digits,
  the point, fraction digits, the exponent mark, its sign, exponent digits.\<close>

datatype numst = NMinus | NZero | NInt | NDot | NFrac | NE | NESign | NExp

definition is_digit :: "char \<Rightarrow> bool" where
  "is_digit c \<longleftrightarrow> 48 \<le> (of_char c :: nat) \<and> (of_char c :: nat) \<le> 57"

definition num_final :: "numst \<Rightarrow> bool" where
  "num_final q \<longleftrightarrow> q = NZero \<or> q = NInt \<or> q = NFrac \<or> q = NExp"

definition num_step :: "numst \<Rightarrow> char \<Rightarrow> numst option" where
  "num_step q c =
     (case q of
        NMinus \<Rightarrow> if c = CHR ''0'' then Some NZero else if is_digit c then Some NInt else None
      | NZero \<Rightarrow> if c = CHR ''.'' then Some NDot
                 else if c = CHR ''e'' \<or> c = CHR ''E'' then Some NE else None
      | NInt \<Rightarrow> if is_digit c then Some NInt else if c = CHR ''.'' then Some NDot
                else if c = CHR ''e'' \<or> c = CHR ''E'' then Some NE else None
      | NDot \<Rightarrow> if is_digit c then Some NFrac else None
      | NFrac \<Rightarrow> if is_digit c then Some NFrac
                 else if c = CHR ''e'' \<or> c = CHR ''E'' then Some NE else None
      | NE \<Rightarrow> if c = CHR ''+'' \<or> c = CHR ''-'' then Some NESign
              else if is_digit c then Some NExp else None
      | NESign \<Rightarrow> if is_digit c then Some NExp else None
      | NExp \<Rightarrow> if is_digit c then Some NExp else None)"

text \<open>States of the decoder: before the value, the rest of a top-level \<open>null\<close>, after
  \<open>[\<close>, after \<open>,\<close>, inside a string, after a backslash, inside a \<open>\u\<close> escape
  (digits still to read, value so far), inside a number, inside the literal \<open>true\<close>,
  \<open>false\<close> or \<open>null\<close> (letters still to read; whether it is of the wrong type for a
  string), after an element, after \<open>]\<close>.  Besides the elements decoded so far the
  decoder carries whether an element had the wrong type: \<^verbatim>\<open>json.Unmarshal\<close> then
  leaves the empty string in its place and reports an \<^verbatim>\<open>UnmarshalTypeError\<close> at the
  end; \<open>null\<close> leaves the empty string with no error.\<close>

datatype jstate = JStart | JTopNull string | JOpen | JValue | JStr | JEsc | JHex nat nat
  | JNum numst | JLit string bool | JAfter | JEnd

text \<open>The first character of an element other than a string.\<close>

definition start_scalar :: "char \<Rightarrow> jstate option" where
  "start_scalar c =
     (if c = CHR ''-'' then Some (JNum NMinus)
      else if c = CHR ''0'' then Some (JNum NZero)
      else if is_digit c then Some (JNum NInt)
      else if c = CHR ''t'' then Some (JLit ''rue'' True)
      else if c = CHR ''f'' then Some (JLit ''alse'' True)
      else if c = CHR ''n'' then Some (JLit ''ull'' False)
      else None)"

fun json_dec :: "jstate \<Rightarrow> string \<Rightarrow> string list \<Rightarrow> bool \<Rightarrow> string \<Rightarrow> (string list \<times> bool) option" where
  "json_dec JEnd cur acc terr [] = Some (rev acc, terr)"
| "json_dec st cur acc terr [] = None"
| "json_dec JStart cur acc terr (c # cs) =
     (if is_ws c then json_dec JStart cur acc terr cs
      else if c = CHR ''['' then json_dec JOpen cur acc terr cs
      else if c = CHR ''n'' then json_dec (JTopNull ''ull'') cur acc terr cs else None)"
| "json_dec (JTopNull l) cur acc terr (c # cs) =
     (case l of
        [] \<Rightarrow> None
      | x # xs \<Rightarrow> if c \<noteq> x then None
                  else if xs = [] then json_dec JEnd cur acc terr cs
                  else json_dec (JTopNull xs) cur acc terr cs)"
| "json_dec JOpen cur acc terr (c # cs) =
     (if is_ws c then json_dec JOpen cur acc terr cs
      else if c = CHR '']'' then json_dec JEnd cur acc terr cs
      else if c = quote_char then json_dec JStr [] acc terr cs
      else case start_scalar c of
             None \<Rightarrow> None
           | Some st \<Rightarrow> json_dec st [] acc terr cs)"
| "json_dec JValue cur acc terr (c # cs) =
     (if is_ws c then json_dec JValue cur acc terr cs
      else if c = quote_char then json_dec JStr [] acc terr cs
      else case start_scalar c of
             None \<Rightarrow> None
           | Some st \<Rightarrow> json_dec st [] acc terr cs)"
| "json_dec JStr cur acc terr (c # cs) =
     (if c = quote_char then json_dec JAfter [] (rev cur # acc) terr cs
      else if c = backslash_char then json_dec JEsc cur acc terr cs
      else if of_char c < (32::nat) then None
      else json_dec JStr (c # cur) acc terr cs)"
| "json_dec JEsc cur acc terr (c # cs) =
     (if c = CHR ''u'' then json_dec (JHex 4 0) cur acc terr cs
      else case short_escape c of
             None \<Rightarrow> None
           | Some e \<Rightarrow> json_dec JStr (e # cur) acc terr cs)"
| "json_dec (JHex n v) cur acc terr (c # cs) =
     (case hex_val c of
        None \<Rightarrow> None
      | Some h \<Rightarrow>
          if n \<le> 1 then (if v * 16 + h < 128 then json_dec JStr (char_of (v * 16 + h) # cur) acc terr cs
                          else None)
          else json_dec (JHex (n - 1) (v * 16 + h)) cur acc terr cs)"
| "json_dec (JNum q) cur acc terr (c # cs) =
     (if num_final q \<and> is_ws c then json_dec JAfter [] ([] # acc) True cs
      else if num_final q \<and> c = CHR '','' then json_dec JValue [] ([] # acc) True cs
      else if num_final q \<and> c = CHR '']'' then json_dec JEnd [] ([] # acc) True cs
      else case num_step q c of
             None \<Rightarrow> None
           | Some q' \<Rightarrow> json_dec (JNum q') cur acc terr cs)"
| "json_dec (JLit l wrong) cur acc terr (c # cs) =
     (case l of
        [] \<Rightarrow> None
      | x # xs \<Rightarrow> if c \<noteq> x then None
                  else if xs = [] then json_dec JAfter [] ([] # acc) (terr \<or> wrong) cs
                  else json_dec (JLit xs wrong) cur acc terr cs)"
| "json_dec JAfter cur acc terr (c # cs) =
     (if is_ws c then json_dec JAfter cur acc terr cs
      else if c = CHR '','' then json_dec JValue cur acc terr cs
      else if c = CHR '']'' then json_dec JEnd cur acc terr cs else None)"
| "json_dec JEnd cur acc terr (c # cs) =
     (if is_ws c then json_dec JEnd cur acc terr cs else None)"

text \<open>\<^verbatim>\<open>json.Unmarshal\<close> into a \<^verbatim>\<open>[]string\<close>: \<^const>\<open>None\<close> is a syntax error
  (Go checks the whole input first and then leaves the slice untouched); otherwise the
  elements and whether one had the wrong type.\<close>

definition decode_json :: "string \<Rightarrow> (string list \<times> bool) option" where
  "decode_json s = json_dec JStart [] [] False s"


section \<open>The redis helpers and getLastIds\<close>

datatype redis_error = RedisNilReply | JsonSyntaxError | JsonTypeError

definition last_links_key :: redis_key where
  "last_links_key = ''reddit_last_links''"

text \<open>\<^verbatim>\<open>common.GetRedisJson\<close>: \<^verbatim>\<open>GET key\<close>, then \<^verbatim>\<open>json.Unmarshal\<close> into the
  caller's slice; a missing key is a nil reply, which \<^verbatim>\<open>reply.Bytes()\<close> reports as an
  error before anything is decoded.  The result is the error, if any, and the slice
  as the call leaves it.\<close>

definition GetRedisJson :: "redis_store \<Rightarrow> redis_key \<Rightarrow> redis_error option \<times> string list" where
  "GetRedisJson client key =
     (case client key of
        None \<Rightarrow> (Some RedisNilReply, [])
      | Some raw \<Rightarrow>
          (case decode_json raw of
             None \<Rightarrow> (Some JsonSyntaxError, [])
           | Some (v, terr) \<Rightarrow> (if terr then Some JsonTypeError else None, v)))"

definition SetRedisJson :: "redis_store \<Rightarrow> redis_key \<Rightarrow> string list \<Rightarrow> redis_store" where
  "SetRedisJson client key v = client(key \<mapsto> encode_json v)"

text \<open>\<^verbatim>\<open>getLastIds\<close> (lines 81--89): an error is logged, and \<^verbatim>\<open>result\<close> is
  returned whatever the error.\<close>

definition getLastIds :: "redis_store \<Rightarrow> log_entry list \<times> reddit_id list" where
  "getLastIds client =
     (let (err, result) = GetRedisJson client last_links_key
      in (if err \<noteq> None then [LogRetrieveBufferError] else [], result))"

section \<open>Stored buffers of JSON scalars\<close>

text \<open>What the redis key may hold besides an array of strings: an array of JSON
  scalars, as another writer (or an older version) could have stored it.\<close>

datatype jscalar = JSString string | JSNat nat | JSBool bool | JSNull

fun dec_digits :: "nat \<Rightarrow> string" where
  "dec_digits n = (if n < 10 then [char_of (48 + n)] else dec_digits (n div 10) @ [char_of (48 + n mod 10)])"

declare dec_digits.simps [simp del]

definition encode_scalar :: "jscalar \<Rightarrow> string" where
  "encode_scalar v =
     (case v of
        JSString s \<Rightarrow> json_string s
      | JSNat n \<Rightarrow> dec_digits n
      | JSBool b \<Rightarrow> (if b then ''true'' else ''false'')
      | JSNull \<Rightarrow> ''null'')"

definition encode_scalars :: "jscalar list \<Rightarrow> string" where
  "encode_scalars vs =
     (case vs of
        [] \<Rightarrow> ''[]''
      | y # ys \<Rightarrow> CHR ''['' # encode_scalar y @ concat (map (\<lambda>v. CHR '','' # encode_scalar v) ys) @ '']'')"

text \<open>The string \<^verbatim>\<open>json.Unmarshal\<close> leaves for an element, and whether the element
  has the wrong type for a string.\<close>

definition scalar_value :: "jscalar \<Rightarrow> string" where
  "scalar_value v = (case v of JSString s \<Rightarrow> s | _ \<Rightarrow> [])"

definition scalar_wrong :: "jscalar \<Rightarrow> bool" where
  "scalar_wrong v = (case v of JSNat n \<Rightarrow> True | JSBool b \<Rightarrow> True | _ \<Rightarrow> False)"

section \<open>Lemmas\<close>

lemmas json_chars = quote_char_def backslash_char_def is_ws_def

lemma json_punct [simp]:
  "\<not> is_ws quote_char" "\<not> is_ws (CHR '','')" "\<not> is_ws (CHR '']'')" "\<not> is_ws (CHR ''['')"
  "quote_char \<noteq> CHR '']''" "quote_char \<noteq> CHR ''[''" "quote_char \<noteq> CHR '',''"
  by (simp_all add: json_chars)

lemma hex_val_hex_char_all: "\<forall>d\<in>set [0..<16]. hex_val (hex_char d) = Some d"
  by (simp add: hex_val_def hex_char_def upt_rec)

lemma hex_val_hex_char: "d < 16 \<Longrightarrow> hex_val (hex_char d) = Some d"
  using hex_val_hex_char_all by simp

lemma hex_val_zero [simp]: "hex_val (CHR ''0'') = Some 0"
  by (simp add: hex_val_def)

lemma short_escape_self: "c = quote_char \<or> c = backslash_char \<Longrightarrow> short_escape c = Some c"
  by (auto simp: short_escape_def)

lemma json_dec_unicode_escape:
  assumes "of_char c < (32::nat)"
  shows "json_dec JEsc cur acc terr ([CHR ''u'', CHR ''0'', CHR ''0'',
            hex_char (of_char c div 16), hex_char (of_char c mod 16)] @ rest)
         = json_dec JStr (c # cur) acc terr rest"
proof -
  have h1: "hex_val (hex_char (of_char c div 16)) = Some (of_char c div 16)"
    using assms by (intro hex_val_hex_char) simp
  have h2: "hex_val (hex_char (of_char c mod 16)) = Some (of_char c mod 16)"
    by (intro hex_val_hex_char) simp
  have v: "of_char c div 16 * 16 + of_char c mod 16 = (of_char c :: nat)"
    by simp
  show ?thesis
    using assms by (simp add: h1 h2 v del: div_mult_mod_eq)
qed

lemma json_dec_escape:
  "json_dec JStr cur acc terr (json_escape c @ rest) = json_dec JStr (c # cur) acc terr rest"
proof (cases "c = quote_char \<or> c = backslash_char")
  case True
  then show ?thesis
    by (auto simp: json_escape_def short_escape_self json_chars)
next
  case notq: False
  show ?thesis
  proof (cases "of_char c < (32::nat)")
    case True
    then show ?thesis
      using notq json_dec_unicode_escape [OF True, of cur acc terr rest]
      by (simp add: json_escape_def json_chars)
  next
    case False
    then show ?thesis
      using notq by (simp add: json_escape_def)
  qed
qed

lemma json_dec_escaped_string:
  "json_dec JStr cur acc terr (concat (map json_escape s) @ rest) = json_dec JStr (rev s @ cur) acc terr rest"
  by (induction s arbitrary: cur) (simp_all add: json_dec_escape [simplified])

lemma json_dec_string:
  "json_dec JStr [] acc terr (concat (map json_escape s) @ quote_char # rest) = json_dec JAfter [] (s # acc) terr rest"
  by (simp add: json_dec_escaped_string)

lemma json_dec_elements:
  "json_dec JAfter [] acc terr (concat (map (\<lambda>s. CHR '','' # json_string s) xs) @ CHR '']'' # rest)
   = json_dec JEnd [] (rev xs @ acc) terr rest"
proof (induction xs arbitrary: acc)
  case Nil
  then show ?case by (simp add: json_chars)
next
  case (Cons x xs)
  have "json_dec JAfter [] acc terr ((CHR '','' # json_string x) @ concat (map (\<lambda>s. CHR '','' # json_string s) xs) @ CHR '']'' # rest)
      = json_dec JAfter [] (x # acc) terr (concat (map (\<lambda>s. CHR '','' # json_string s) xs) @ CHR '']'' # rest)"
    by (simp add: json_string_def json_dec_string)
  then show ?case
    using Cons.IH by simp
qed


lemma decode_encode_json [json_simps]: "decode_json (encode_json xs) = Some (xs, False)"
proof (cases xs)
  case Nil
  then show ?thesis by (simp add: decode_json_def encode_json_def json_chars)
next
  case (Cons y ys)
  have "json_dec JOpen [] [] False (json_string y @ concat (map (\<lambda>s. CHR '','' # json_string s) ys) @ '']'')
      = json_dec JAfter [] [y] False (concat (map (\<lambda>s. CHR '','' # json_string s) ys) @ '']'')"
    by (simp add: json_string_def json_dec_string)
  also have "\<dots> = Some (y # ys, False)"
    using json_dec_elements [of "[y]" False ys "[]"] by simp
  finally show ?thesis
    using Cons by (simp add: decode_json_def encode_json_def)
qed

lemma GetRedisJson_SetRedisJson [json_simps]:
  "GetRedisJson (SetRedisJson client key v) key' =
     (if key' = key then (None, v) else GetRedisJson client key')"
  by (simp add: GetRedisJson_def SetRedisJson_def decode_encode_json)

lemma char_digit [simp]: "(d::nat) < 10 \<Longrightarrow> is_digit (char_of (48 + d))"
  by (simp add: is_digit_def)

lemma char_digit_zero_iff: "(d::nat) < 10 \<Longrightarrow> char_of (48 + d) = CHR ''0'' \<longleftrightarrow> d = 0"
proof -
  assume d: "d < 10"
  have "char_of (48 + d) = CHR ''0'' \<longleftrightarrow> (of_char (char_of (48 + d)) :: nat) = of_char (CHR ''0'')"
    by (simp only: of_char_eq_iff)
  also have "\<dots> \<longleftrightarrow> 48 + d = 48" using d by simp
  finally show ?thesis by simp
qed

lemma dec_digits_shape:
  "n \<noteq> 0 \<Longrightarrow> \<exists>c ds. dec_digits n = c # ds \<and> is_digit c \<and> c \<noteq> CHR ''0'' \<and> list_all is_digit ds"
proof (induction n rule: dec_digits.induct)
  case (1 n)
  show ?case
  proof (cases "n < 10")
    case True
    then show ?thesis using 1(2) char_digit_zero_iff [of n] by (simp add: dec_digits.simps)
  next
    case False
    then have "n div 10 \<noteq> 0" by simp
    then obtain c ds where "dec_digits (n div 10) = c # ds" "is_digit c" "c \<noteq> CHR ''0''"
        "list_all is_digit ds"
      using 1(1) False by blast
    then show ?thesis using False by (simp add: dec_digits.simps)
  qed
qed

lemma is_digit_not_delim:
  "is_digit c \<Longrightarrow> \<not> is_ws c \<and> c \<noteq> CHR '','' \<and> c \<noteq> CHR '']'' \<and> c \<noteq> CHR ''.'' \<and> c \<noteq> CHR ''e'' \<and> c \<noteq> CHR ''E''"
  by (auto simp: is_digit_def is_ws_def)

lemma json_dec_int_digits:
  "list_all is_digit ds \<Longrightarrow> json_dec (JNum NInt) [] acc terr (ds @ rest) = json_dec (JNum NInt) [] acc terr rest"
proof (induction ds)
  case (Cons c ds)
  then show ?case using is_digit_not_delim [of c] by (simp add: num_final_def num_step_def)
qed simp

lemma json_dec_num_end:
  "num_final q \<Longrightarrow> d = CHR '','' \<or> d = CHR '']'' \<Longrightarrow>
   json_dec (JNum q) [] acc terr (d # rest) = json_dec JAfter [] ([] # acc) True (d # rest)"
  by (auto simp: json_chars)

lemma json_dec_lit:
  "json_dec (JLit ''rue'' w) cur acc terr (''rue'' @ rest) = json_dec JAfter [] ([] # acc) (terr \<or> w) rest"
  "json_dec (JLit ''alse'' w) cur acc terr (''alse'' @ rest) = json_dec JAfter [] ([] # acc) (terr \<or> w) rest"
  "json_dec (JLit ''ull'' w) cur acc terr (''ull'' @ rest) = json_dec JAfter [] ([] # acc) (terr \<or> w) rest"
  by simp_all

text \<open>One element, in the first position (\<open>st = JOpen\<close>) or after a comma, followed by
  a comma or the closing bracket.\<close>

lemma json_dec_scalar:
  assumes "st = JOpen \<or> st = JValue" and "d = CHR '','' \<or> d = CHR '']''"
  shows "json_dec st [] acc terr (encode_scalar v @ d # rest)
           = json_dec JAfter [] (scalar_value v # acc) (terr \<or> scalar_wrong v) (d # rest)"
proof (cases v)
  case (JSString s)
  then show ?thesis using assms
    by (auto simp: encode_scalar_def scalar_value_def scalar_wrong_def json_string_def json_dec_string)
next
  case (JSNat n)
  show ?thesis
  proof (cases "n = 0")
    case True
    then have "encode_scalar v = ''0''"
      using JSNat char_digit_zero_iff [of 0] by (simp add: encode_scalar_def dec_digits.simps)
    then show ?thesis using assms JSNat
      by (auto simp: start_scalar_def scalar_value_def scalar_wrong_def num_final_def json_chars)
  next
    case False
    then obtain c ds where cds: "dec_digits n = c # ds" "is_digit c" "c \<noteq> CHR ''0''"
        "list_all is_digit ds"
      using dec_digits_shape by blast
    have sc: "start_scalar c = Some (JNum NInt)" "c \<noteq> quote_char"
      using cds(2,3) by (auto simp: start_scalar_def is_digit_def json_chars)
    have "json_dec (JNum NInt) [] acc terr (ds @ d # rest) = json_dec JAfter [] ([] # acc) True (d # rest)"
      using json_dec_int_digits [OF cds(4)] json_dec_num_end [of NInt d acc terr rest] assms(2)
      by (simp add: num_final_def)
    then show ?thesis using assms(1) JSNat cds(1) sc is_digit_not_delim [OF cds(2)]
      by (auto simp: encode_scalar_def scalar_value_def scalar_wrong_def)
  qed
next
  case (JSBool b)
  then show ?thesis using assms
    by (cases b) (auto simp: encode_scalar_def scalar_value_def scalar_wrong_def start_scalar_def
                              json_chars is_digit_def)
next
  case JSNull
  then show ?thesis using assms
    by (auto simp: encode_scalar_def scalar_value_def scalar_wrong_def start_scalar_def
                   json_chars is_digit_def)
qed

lemma scalars_tail_delim:
  "\<exists>d rest'. concat (map (\<lambda>v. CHR '','' # encode_scalar v) vs) @ CHR '']'' # rest = d # rest'
     \<and> (d = CHR '','' \<or> d = CHR '']'')"
  by (cases vs) auto

lemma json_dec_scalars:
  "json_dec JAfter [] acc terr (concat (map (\<lambda>v. CHR '','' # encode_scalar v) vs) @ CHR '']'' # rest)
   = json_dec JEnd [] (rev (map scalar_value vs) @ acc) (terr \<or> list_ex scalar_wrong vs) rest"
proof (induction vs arbitrary: acc terr)
  case Nil
  then show ?case by simp
next
  case (Cons v vs)
  obtain d rest' where dr: "concat (map (\<lambda>v. CHR '','' # encode_scalar v) vs) @ CHR '']'' # rest = d # rest'"
      "d = CHR '','' \<or> d = CHR '']''"
    using scalars_tail_delim by blast
  have "json_dec JValue [] acc terr (encode_scalar v @ concat (map (\<lambda>v. CHR '','' # encode_scalar v) vs) @ CHR '']'' # rest)
      = json_dec JAfter [] (scalar_value v # acc) (terr \<or> scalar_wrong v)
          (concat (map (\<lambda>v. CHR '','' # encode_scalar v) vs) @ CHR '']'' # rest)"
    unfolding dr(1) by (rule json_dec_scalar [OF _ dr(2)]) simp
  then show ?case using Cons.IH by (simp add: disj_assoc)
qed

lemma decode_encode_scalars:
  "decode_json (encode_scalars vs) = Some (map scalar_value vs, list_ex scalar_wrong vs)"
proof (cases vs)
  case Nil
  then show ?thesis by (simp add: decode_json_def encode_scalars_def json_chars)
next
  case (Cons y ys)
  obtain d rest' where dr: "concat (map (\<lambda>v. CHR '','' # encode_scalar v) ys) @ '']'' = d # rest'"
      "d = CHR '','' \<or> d = CHR '']''"
    using scalars_tail_delim [of ys "[]"] by auto
  have "json_dec JOpen [] [] False (encode_scalar y @ concat (map (\<lambda>v. CHR '','' # encode_scalar v) ys) @ '']'')
      = json_dec JAfter [] [scalar_value y] (scalar_wrong y) (concat (map (\<lambda>v. CHR '','' # encode_scalar v) ys) @ '']'')"
    unfolding dr(1) using json_dec_scalar [OF _ dr(2), of JOpen "[]" False y rest'] by simp
  also have "\<dots> = Some (map scalar_value (y # ys), list_ex scalar_wrong (y # ys))"
    using json_dec_scalars [of "[scalar_value y]" "scalar_wrong y" ys "[]"] by simp
  finally show ?thesis
    using Cons by (simp add: decode_json_def encode_scalars_def)
qed

end
