(* ===== verification/PostFetcher.thy ===== *)
theory PostFetcher
  imports RedditIdSlice RedisJson
begin

text \<open>
  The delta/dedup engine of the feed (spec section 4.1, \<^verbatim>\<open>computeNewItems\<close>):
  the post fetcher that \<^verbatim>\<open>runBot\<close> creates with \<^verbatim>\<open>NewPostFetcher\<close> and calls
  through \<^verbatim>\<open>GetNewPosts\<close> lives outside \<^verbatim>\<open>src/\<close>, so this theory models it from
  the spec.  A snapshot item is new iff its id is not in the last-seen window; the new
  items are emitted newest first (the order of \<^verbatim>\<open>RedditIdSlice.Less\<close>, stably); the
  window becomes the \<open>N\<close> newest of the new ids followed by the old window.
\<close>

section \<open>Items\<close>

text \<open>The fields of \<^verbatim>\<open>reddit.Link\<close> that the feed reads.\<close>

record link =
  link_ID :: reddit_id
  link_Subreddit :: string
  link_Author :: string
  link_Title :: string
  link_Selftext :: string
  link_URL :: string
  link_IsSelf :: bool

section \<open>computeNewItems\<close>

definition fresh_items :: "reddit_id list \<Rightarrow> link list \<Rightarrow> link list" where
  "fresh_items last_seen snapshot = filter (\<lambda>l. link_ID l \<notin> set last_seen) snapshot"

definition compute_new_items ::
  "nat \<Rightarrow> link list \<Rightarrow> reddit_id list \<Rightarrow> link list \<times> reddit_id list" where
  "compute_new_items N snapshot last_seen =
     (let new_items = sort_by_id link_ID (fresh_items last_seen snapshot);
          updated = take N (sort_by_id (\<lambda>x. x) (map link_ID new_items @ last_seen))
      in (new_items, updated))"

section \<open>The fetcher and GetNewPosts\<close>

text \<open>The fetcher's state is its window; \<^verbatim>\<open>NewPostFetcher\<close> starts it from the ids
  \<^verbatim>\<open>getLastIds\<close> loaded.  \<^verbatim>\<open>GetNewPosts\<close> takes the listing the reddit client
  returned for this tick (an error, or the snapshot), computes the delta, keeps the new
  window and writes it to redis.\<close>

record post_fetcher =
  LastLinks :: "reddit_id list"

datatype fetch_error = RedditApiError

definition NewPostFetcher :: "reddit_id list \<Rightarrow> post_fetcher" where
  "NewPostFetcher lastIds = \<lparr>LastLinks = lastIds\<rparr>"

definition GetNewPosts ::
  "nat \<Rightarrow> fetch_error + link list \<Rightarrow> post_fetcher \<Rightarrow> redis_store
   \<Rightarrow> fetch_error + (link list \<times> post_fetcher \<times> redis_store)" where
  "GetNewPosts N listing p client =
     (case listing of
        Inl err \<Rightarrow> Inl err
      | Inr snapshot \<Rightarrow>
          (let (links, updated) = compute_new_items N snapshot (LastLinks p)
           in Inr (links, p\<lparr>LastLinks := updated\<rparr>, SetRedisJson client last_links_key updated)))"

section \<open>Lemmas\<close>

lemmas engine_eval = compute_new_items_def fresh_items_def id_less_def parse_eval

lemma compute_new_items_fst:
  "fst (compute_new_items N S L) = sort_by_id link_ID (fresh_items L S)"
  by (simp add: compute_new_items_def Let_def)

lemma compute_new_items_snd:
  "snd (compute_new_items N S L) =
     take N (sort_by_id (\<lambda>x. x) (map link_ID (fst (compute_new_items N S L)) @ L))"
  by (simp add: compute_new_items_def Let_def)

lemma set_fresh_items: "set (fresh_items L S) = {l \<in> set S. link_ID l \<notin> set L}"
  by (auto simp: fresh_items_def)

lemma mset_new_items:
  "mset (fst (compute_new_items N S L)) = filter_mset (\<lambda>l. link_ID l \<notin> set L) (mset S)"
  by (simp add: compute_new_items_fst fresh_items_def)

lemma set_new_items:
  "set (fst (compute_new_items N S L)) = {l \<in> set S. link_ID l \<notin> set L}"
  by (simp add: compute_new_items_fst set_fresh_items)

lemma set_window:
  "set (snd (compute_new_items N S L)) \<subseteq> link_ID ` set (fst (compute_new_items N S L)) \<union> set L"
  unfolding compute_new_items_snd [of N S L] by (auto dest: in_set_takeD)

lemma window_newest_first: "newest_first (\<lambda>x. x) (snd (compute_new_items N S L))"
  unfolding compute_new_items_snd [of N S L]
  by (intro newest_first_take newest_first_sort_by_id)

lemma length_window: "length (snd (compute_new_items N S L)) \<le> N"
  by (simp add: compute_new_items_snd [of N S L])




lemma distinct_new_ids:
  "distinct (map link_ID S) \<Longrightarrow> distinct (map link_ID (fst (compute_new_items N S L)))"
  by (metis compute_new_items_fst distinct_map_filter fresh_items_def mset_map mset_sort_by_id
      mset_eq_imp_distinct_iff)

lemma window_distinct:
  assumes "distinct (map link_ID S)" and "distinct L"
  shows "distinct (snd (compute_new_items N S L))"
proof -
  have "set (map link_ID (fst (compute_new_items N S L))) \<inter> set L = {}"
    by (auto simp: set_new_items)
  then have "distinct (map link_ID (fst (compute_new_items N S L)) @ L)"
    using distinct_new_ids [OF assms(1)] assms(2) by simp
  then show ?thesis
    unfolding compute_new_items_snd [of N S L] by (simp add: distinct_take)
qed

lemma window_no_truncation:
  assumes "distinct (map link_ID S)" and "distinct L" and "card (set L \<union> link_ID ` set S) \<le> N"
  shows "set (snd (compute_new_items N S L)) = link_ID ` set (fst (compute_new_items N S L)) \<union> set L"
proof -
  let ?A = "map link_ID (fst (compute_new_items N S L)) @ L"
  have "distinct ?A"
    using distinct_new_ids [OF assms(1)] assms(2) by (auto simp: set_new_items)
  then have "length ?A = card (set ?A)" by (rule distinct_card [symmetric])
  also have "\<dots> \<le> card (set L \<union> link_ID ` set S)"
    by (intro card_mono) (auto simp: set_new_items)
  finally have "length (sort_by_id (\<lambda>x. x) ?A) \<le> N" using assms(3) by simp
  then show ?thesis
    unfolding compute_new_items_snd [of N S L] by simp
qed

lemma take_append_prefix: "length A \<le> N \<Longrightarrow> set A \<subseteq> set (take N (A @ B))"
  by simp

lemma length_fresh_plus_seen:
  assumes "distinct (map link_ID S)" and "distinct L"
  shows "length (fresh_items L S) + length (filter (\<lambda>y. y \<in> link_ID ` set S) L) = length S"
proof -
  let ?I = "link_ID ` set S"
  have "length (fresh_items L S) = length (filter (\<lambda>y. y \<notin> set L) (map link_ID S))"
    by (simp add: fresh_items_def filter_map comp_def length_filter_map [symmetric])
  also have "\<dots> = card (?I - set L)"
    using assms(1) by (subst distinct_card [symmetric]) (auto simp: distinct_filter set_diff_eq)
  finally have a: "length (fresh_items L S) = card (?I - set L)" .
  have "length (filter (\<lambda>y. y \<in> ?I) L) = card (?I \<inter> set L)"
    using assms(2) by (subst distinct_card [symmetric]) (auto simp: distinct_filter intro!: arg_cong [where f = card])
  moreover have "card (?I - set L) + card (?I \<inter> set L) = card ?I"
    by (metis card_Diff_subset_Int card_mono Diff_Diff_Int card_Diff_subset finite_set finite_imageI
              Int_lower1 le_add_diff_inverse2 finite_Int)
  moreover have "card ?I = length S"
    using distinct_card [OF assms(1)] by simp
  ultimately show ?thesis using a by simp
qed




end
