(* ===== verification/HandlePost.thy ===== *)
theory HandlePost
  imports PostFetcher
begin

text \<open>
  \<^verbatim>\<open>Plugin.handlePost\<close> (\<^verbatim>\<open>src/reddit/redditbot.go\<close>, lines 91--169): look up
  the watch configuration of the post's subreddit (key
  \<^verbatim>\<open>global_subreddit_watch:\<close> and the lower-cased name), collect the channels that
  watch it (an empty channel falls back to the guild, duplicates are skipped by the
  labelled \<^verbatim>\<open>continue OUTER\<close>), build one embed, and send it to every channel, only
  logging a failed send.  The collaborators are parameters of the model: the redis
  lookup \<^verbatim>\<open>GetConfig\<close>, \<^verbatim>\<open>common.Conf.Host\<close>, \<^verbatim>\<open>common.CutStringShort\<close> and the
  outcome of \<^verbatim>\<open>ChannelMessageSendEmbed\<close>.  The observable effects are the send
  attempts, in order, and the log.
\<close>

section \<open>Data\<close>

text \<open>The fields of a \<^verbatim>\<open>SubredditWatchItem\<close> that handlePost reads.\<close>

record SubredditWatchItem =
  swi_Channel :: channel_id
  swi_Guild :: string

datatype config_error = ConfigRedisError

record embed =
  embed_URL :: string
  embed_Title :: string
  embed_Description :: string
  embed_Color :: int
  embed_AuthorURL :: string
  embed_AuthorName :: string
  embed_AuthorIconURL :: string
  embed_ProviderName :: string
  embed_ProviderURL :: string
  embed_Image :: "string option"
  embed_Video :: "string option"

record bot_env =
  env_host :: string
  env_cut_string_short :: "string \<Rightarrow> nat \<Rightarrow> string"
  env_get_config :: "redis_key \<Rightarrow> config_error + SubredditWatchItem list"
  env_send_ok :: "channel_id \<Rightarrow> embed \<Rightarrow> bool"

record effects =
  attempts :: "(channel_id \<times> embed) list"
  logs :: "log_entry list"

section \<open>The watch key\<close>

text \<open>\<^verbatim>\<open>strings.ToLower\<close> on the ASCII letters; other bytes are left as they are
  (Unicode case mapping beyond ASCII is not modelled).\<close>

definition ascii_lower :: "char \<Rightarrow> char" where
  "ascii_lower c =
     (if 65 \<le> (of_char c :: nat) \<and> (of_char c :: nat) \<le> 90 then char_of (of_char c + (32::nat)) else c)"

definition config_key :: "string \<Rightarrow> redis_key" where
  "config_key sub = ''global_subreddit_watch:'' @ map ascii_lower sub"

section \<open>Collecting the channels\<close>

text \<open>Lines 106--108: an item without a channel posts to its guild's default channel.\<close>

definition effective_channel :: "SubredditWatchItem \<Rightarrow> channel_id" where
  "effective_channel c = (if swi_Channel c = [] then swi_Guild c else swi_Channel c)"

text \<open>Lines 109--113: the inner loop over the channels collected so far.\<close>

fun channel_listed :: "channel_id \<Rightarrow> channel_id list \<Rightarrow> bool" where
  "channel_listed c [] = False"
| "channel_listed c (currentChannel # rest) =
     (if currentChannel = c then True else channel_listed c rest)"

text \<open>Lines 103--115: the labelled loop \<^verbatim>\<open>OUTER\<close>.\<close>

fun collect_channels :: "channel_id list \<Rightarrow> SubredditWatchItem list \<Rightarrow> channel_id list" where
  "collect_channels channels [] = channels"
| "collect_channels channels (c # config) =
     (let ch = effective_channel c in
      if channel_listed ch channels then collect_channels channels config
      else collect_channels (channels @ [ch]) config)"

section \<open>The embed\<close>

text \<open>Lines 127--159.\<close>

definition build_embed :: "bot_env \<Rightarrow> link \<Rightarrow> embed" where
  "build_embed env post =
     (let author = link_Author post;
          sub = link_Subreddit post;
          e = \<lparr>embed_URL = ''https://redd.it/'' @ link_ID post,
               embed_Title = [],
               embed_Description = ''**'' @ link_Title post @ ''**'' @ [CHR 0x0A],
               embed_Color = 0,
               embed_AuthorURL = ''https://reddit.com/u/'' @ author,
               embed_AuthorName = author,
               embed_AuthorIconURL = ''https://'' @ env_host env @ ''/static/img/reddit_icon.png'',
               embed_ProviderName = ''Reddit'',
               embed_ProviderURL = ''https://reddit.com'',
               embed_Image = None,
               embed_Video = None\<rparr>
      in if link_IsSelf post
         then e\<lparr>embed_Title := ''New self post in /r/'' @ sub,
                embed_Description := embed_Description e @ env_cut_string_short env (link_Selftext post) 250,
                embed_Color := 12844158\<rparr>
         else e\<lparr>embed_Color := 7441133,
                embed_Title := ''New link post in /r/'' @ sub,
                embed_Description := embed_Description e @ link_URL post,
                embed_Image := Some (link_URL post),
                embed_Video := Some (link_URL post)\<rparr>)"

section \<open>Sending and handlePost\<close>

text \<open>Lines 161--166: every channel is attempted; a failure is logged and the loop goes
  on.\<close>

fun send_embeds :: "bot_env \<Rightarrow> embed \<Rightarrow> channel_id list \<Rightarrow> effects \<Rightarrow> effects" where
  "send_embeds env e [] eff = eff"
| "send_embeds env e (channel # channels) eff =
     send_embeds env e channels
       (eff\<lparr>attempts := attempts eff @ [(channel, e)],
            logs := logs eff @ (if env_send_ok env channel e then [] else [LogPostError channel])\<rparr>)"

definition handlePost :: "bot_env \<Rightarrow> link \<Rightarrow> effects \<Rightarrow> (config_error + unit) \<times> effects" where
  "handlePost env post eff =
     (case env_get_config env (config_key (link_Subreddit post)) of
        Inl err \<Rightarrow> (Inl err, eff\<lparr>logs := logs eff @ [LogConfigError]\<rparr>)
      | Inr config \<Rightarrow>
          (let channels = collect_channels [] config in
           if length channels < 1 then (Inr (), eff)
           else
             (let eff' = eff\<lparr>logs := logs eff @ [LogFoundMatchedPost (length channels) (link_Subreddit post)]\<rparr>
              in (Inr (), send_embeds env (build_embed env post) channels eff'))))"

section \<open>Lemmas\<close>

lemma channel_listed_iff [simp]: "channel_listed c cs \<longleftrightarrow> c \<in> set cs"
  by (induction cs) auto

lemma collect_channels_snoc:
  "collect_channels acc (config @ [c]) =
     (let r = collect_channels acc config in
      if effective_channel c \<in> set r then r else r @ [effective_channel c])"
  by (induction config arbitrary: acc) (simp_all add: Let_def)

lemma collect_channels_remdups_first:
  "collect_channels [] config = remdups_first (map effective_channel config)"
proof (induction config rule: rev_induct)
  case Nil
  then show ?case by simp
next
  case (snoc c config)
  then show ?case by (simp add: collect_channels_snoc Let_def)
qed

lemma send_embeds_attempts:
  "attempts (send_embeds env e chs eff) = attempts eff @ map (\<lambda>ch. (ch, e)) chs"
  by (induction chs arbitrary: eff) simp_all

lemma send_embeds_logs:
  "logs (send_embeds env e chs eff) =
     logs eff @ map LogPostError (filter (\<lambda>ch. \<not> env_send_ok env ch e) chs)"
  by (induction chs arbitrary: eff) simp_all


text \<open>What handlePost sends for one post: the embed to each watching channel, once,
  in the order of the configuration; nothing when the lookup fails.\<close>

definition post_deliveries :: "bot_env \<Rightarrow> link \<Rightarrow> (channel_id \<times> embed) list" where
  "post_deliveries env post =
     (case env_get_config env (config_key (link_Subreddit post)) of
        Inl err \<Rightarrow> []
      | Inr config \<Rightarrow> map (\<lambda>ch. (ch, build_embed env post)) (remdups_first (map effective_channel config)))"

lemma handlePost_attempts:
  "attempts (snd (handlePost env post eff)) = attempts eff @ post_deliveries env post"
  by (auto simp: handlePost_def post_deliveries_def send_embeds_attempts collect_channels_remdups_first
           Let_def split: sum.splits)


end
