(* ===== verification/RunBot.thy ===== *)
theory RunBot
  imports HandlePost
begin

text \<open>
  The dispatch loop: \<^verbatim>\<open>StartFeed\<close>, \<^verbatim>\<open>StopFeed\<close> and \<^verbatim>\<open>runBot\<close>
  (\<^verbatim>\<open>src/reddit/redditbot.go\<close>, lines 25--79).  \<^verbatim>\<open>runBot\<close> loads the stored
  window (\<^verbatim>\<open>getLastIds\<close>), creates the fetcher and then loops on a \<^verbatim>\<open>select\<close>
  between the stop channel and the 5-second ticker.  Go's \<^verbatim>\<open>select\<close> picks either
  ready case, so the model takes the sequence of events as input: a stop request (the
  \<^verbatim>\<open>WaitGroup\<close> sent by \<^verbatim>\<open>StopFeed\<close>), or a tick together with the listing
  the reddit client returns in it.  The timer itself, the reddit and discord clients are
  collaborators and not modelled; their answers are the event payloads and the
  \<^typ>\<open>bot_env\<close>.  After \<^verbatim>\<open>return\<close> the goroutine is gone: a stopped loop takes
  no further step.
\<close>

section \<open>State and events\<close>

datatype feed_phase = Running | Stopped

record bot_state =
  phase :: feed_phase
  fetcher :: post_fetcher
  redis :: redis_store
  effs :: effects
  wg_done :: nat

datatype feed_event = StopFeedSignal | TickFetched "fetch_error + link list"

section \<open>runBot\<close>

text \<open>Lines 45--53: load the window, log when resuming, create the fetcher.\<close>

definition runBot_start :: "redis_store \<Rightarrow> bot_state" where
  "runBot_start client =
     (let (lg, storedLastIds) = getLastIds client;
          lg' = lg @ (if length storedLastIds > 0 then [LogFoundLastIds] else [])
      in \<lparr>phase = Running, fetcher = NewPostFetcher storedLastIds, redis = client,
          effs = \<lparr>attempts = [], logs = lg'\<rparr>, wg_done = 0\<rparr>)"

text \<open>Lines 73--77: every new link is handed to handlePost; its result is dropped.\<close>

fun handle_posts :: "bot_env \<Rightarrow> link list \<Rightarrow> effects \<Rightarrow> effects" where
  "handle_posts env [] eff = eff"
| "handle_posts env (v # links) eff = handle_posts env links (snd (handlePost env v eff))"

text \<open>Lines 56--78: one iteration of the loop.\<close>

definition runBot_step :: "bot_env \<Rightarrow> nat \<Rightarrow> feed_event \<Rightarrow> bot_state \<Rightarrow> bot_state" where
  "runBot_step env N ev s =
     (if phase s = Stopped then s
      else case ev of
        StopFeedSignal \<Rightarrow> s\<lparr>phase := Stopped, wg_done := Suc (wg_done s)\<rparr>
      | TickFetched listing \<Rightarrow>
          (case GetNewPosts N listing (fetcher s) (redis s) of
             Inl err \<Rightarrow> s\<lparr>effs := (effs s)\<lparr>logs := logs (effs s) @ [LogFetchError]\<rparr>\<rparr>
           | Inr (links, f', client') \<Rightarrow>
               (let s' = s\<lparr>fetcher := f', redis := client'\<rparr> in
                if length links < 1 then s'
                else s'\<lparr>effs := handle_posts env links (effs s)\<rparr>)))"

fun runBot_run :: "bot_env \<Rightarrow> nat \<Rightarrow> bot_state \<Rightarrow> feed_event list \<Rightarrow> bot_state" where
  "runBot_run env N s [] = s"
| "runBot_run env N s (ev # evs) = runBot_run env N (runBot_step env N ev s) evs"

text \<open>The states the loop reaches from a start on the store \<open>client\<close>.\<close>

inductive reachable :: "bot_env \<Rightarrow> nat \<Rightarrow> redis_store \<Rightarrow> bot_state \<Rightarrow> bool"
  for env N client where
  start: "reachable env N client (runBot_start client)"
| step: "reachable env N client s \<Longrightarrow> reachable env N client (runBot_step env N ev s)"

section \<open>Lemmas\<close>

lemma handle_posts_attempts:
  "attempts (handle_posts env links eff) = attempts eff @ concat (map (post_deliveries env) links)"
  by (induction links arbitrary: eff) (simp_all add: handlePost_attempts)

lemma runBot_step_Stopped [simp]: "phase s = Stopped \<Longrightarrow> runBot_step env N ev s = s"
  by (simp add: runBot_step_def)

lemma runBot_step_fetcher:
  "phase s = Running \<Longrightarrow>
   fetcher (runBot_step env N (TickFetched (Inr snapshot)) s) =
     \<lparr>LastLinks = snd (compute_new_items N snapshot (LastLinks (fetcher s)))\<rparr>"
  by (auto simp: runBot_step_def GetNewPosts_def Let_def split: prod.splits)

lemma runBot_step_redis:
  "phase s = Running \<Longrightarrow>
   redis (runBot_step env N (TickFetched (Inr snapshot)) s) =
     SetRedisJson (redis s) last_links_key (snd (compute_new_items N snapshot (LastLinks (fetcher s))))"
  by (auto simp: runBot_step_def GetNewPosts_def Let_def split: prod.splits)

lemma runBot_step_attempts:
  "phase s = Running \<Longrightarrow>
   attempts (effs (runBot_step env N (TickFetched (Inr snapshot)) s)) =
     attempts (effs s) @ concat (map (post_deliveries env) (fst (compute_new_items N snapshot (LastLinks (fetcher s)))))"
  by (auto simp: runBot_step_def GetNewPosts_def Let_def handle_posts_attempts split: prod.splits)

lemma runBot_step_tick_phase:
  "phase (runBot_step env N (TickFetched (Inr snapshot)) s) = phase s
   \<and> wg_done (runBot_step env N (TickFetched (Inr snapshot)) s) = wg_done s"
  by (auto simp: runBot_step_def GetNewPosts_def Let_def split: prod.splits)

lemma runBot_step_fetch_error:
  "phase s = Running \<Longrightarrow>
   runBot_step env N (TickFetched (Inl err)) s = s\<lparr>effs := (effs s)\<lparr>logs := logs (effs s) @ [LogFetchError]\<rparr>\<rparr>"
  by (simp add: runBot_step_def GetNewPosts_def)

lemma runBot_step_stop:
  "phase s = Running \<Longrightarrow> runBot_step env N StopFeedSignal s = s\<lparr>phase := Stopped, wg_done := Suc (wg_done s)\<rparr>"
  by (simp add: runBot_step_def)

lemma runBot_step_cases:
  obtains (stopped) "phase s = Stopped"
    | (stop) "phase s = Running" "ev = StopFeedSignal"
    | (err) err where "phase s = Running" "ev = TickFetched (Inl err)"
    | (tick) snapshot where "phase s = Running" "ev = TickFetched (Inr snapshot)"
proof (cases "phase s")
  case Running
  then show ?thesis
  proof (cases ev)
    case (TickFetched listing)
    then show ?thesis
      using Running that(3,4) by (cases listing) auto
  qed (use that(2) in auto)
qed (use that(1) in auto)


text \<open>The invariant of the loop: the stop handshake has been acknowledged exactly when
  the loop has stopped; the window in redis is the fetcher's window; the window is no
  longer than the page size, or than the window it was started with.\<close>

definition feed_inv :: "nat \<Rightarrow> redis_store \<Rightarrow> bot_state \<Rightarrow> bool" where
  "feed_inv N client s \<longleftrightarrow>
     ((phase s = Running \<and> wg_done s = 0) \<or> (phase s = Stopped \<and> wg_done s = 1)) \<and>
     snd (getLastIds (redis s)) = LastLinks (fetcher s) \<and>
     length (LastLinks (fetcher s)) \<le> max N (length (snd (getLastIds client)))"

lemma feed_inv_start: "feed_inv N client (runBot_start client)"
  by (simp add: feed_inv_def runBot_start_def NewPostFetcher_def split: prod.splits)

lemma feed_inv_step:
  assumes "feed_inv N client s"
  shows "feed_inv N client (runBot_step env N ev s)"
proof (cases rule: runBot_step_cases [where s = s and ev = ev])
  case stopped
  then show ?thesis using assms by simp
next
  case stop
  then show ?thesis using assms by (simp add: runBot_step_stop feed_inv_def)
next
  case (err e)
  then show ?thesis using assms by (simp add: runBot_step_fetch_error feed_inv_def)
next
  case (tick snapshot)
  have len: "length (snd (compute_new_items N snapshot (LastLinks (fetcher s)))) \<le> N"
    by (rule length_window)
  have "phase (runBot_step env N ev s) = phase s \<and> wg_done (runBot_step env N ev s) = wg_done s"
    using tick by (simp add: runBot_step_tick_phase)
  then show ?thesis
    using assms tick len
    by (simp add: feed_inv_def runBot_step_fetcher runBot_step_redis getLastIds_def GetRedisJson_SetRedisJson)
qed

lemma reachable_feed_inv: "reachable env N client s \<Longrightarrow> feed_inv N client s"
proof (induction rule: reachable.induct)
  case start
  show ?case by (rule feed_inv_start)
next
  case (step s ev)
  from step.IH show ?case by (rule feed_inv_step)
qed

lemma runBot_run_append:
  "runBot_run env N s (evs @ evs') = runBot_run env N (runBot_run env N s evs) evs'"
  by (induction evs arbitrary: s) simp_all

lemma runBot_step_not_stop:
  "ev \<noteq> StopFeedSignal \<Longrightarrow> phase s = Running \<Longrightarrow>
   phase (runBot_step env N ev s) = Running \<and> wg_done (runBot_step env N ev s) = wg_done s"
  by (cases rule: runBot_step_cases [where s = s and ev = ev])
     (simp_all add: runBot_step_fetch_error runBot_step_tick_phase)

lemma runBot_run_no_stop:
  "StopFeedSignal \<notin> set evs \<Longrightarrow> phase s = Running \<Longrightarrow>
   phase (runBot_run env N s evs) = Running \<and> wg_done (runBot_run env N s evs) = wg_done s"
proof (induction evs arbitrary: s)
  case (Cons ev evs)
  then show ?case using runBot_step_not_stop [of ev s env N] by auto
qed simp

lemma runBot_run_Stopped: "phase s = Stopped \<Longrightarrow> runBot_run env N s evs = s"
  by (induction evs) simp_all

end
