(* ===== verification/FeedRuns.thy ===== *)
theory FeedRuns
  imports RunBot
begin

text \<open>
  Whole runs of the dispatch loop of \<^verbatim>\<open>runBot\<close> (\<^verbatim>\<open>src/reddit/redditbot.go\<close>,
  lines 56--78) and the abstract feed of the spec that they implement.
  \<open>tick_links\<close> is the value of the local \<^verbatim>\<open>links\<close> an iteration hands to
  handlePost, \<open>run_links\<close> the concatenation over a run.  The abstract feed
  (spec sections 3, 4.1 and 4.3) keeps the set of ids ever seen and whether it stopped; a
  tick delivers the snapshot's items whose id it has not seen.  The refinement lemmas
  show the loop implements it as long as the window is not truncated.
\<close>

section \<open>Run observations\<close>

definition tick_links :: "nat \<Rightarrow> feed_event \<Rightarrow> bot_state \<Rightarrow> link list" where
  "tick_links N ev s =
     (if phase s = Stopped then []
      else case ev of
        StopFeedSignal \<Rightarrow> []
      | TickFetched listing \<Rightarrow>
          (case GetNewPosts N listing (fetcher s) (redis s) of
             Inl err \<Rightarrow> []
           | Inr (links, f', client') \<Rightarrow> links))"

fun run_links :: "bot_env \<Rightarrow> nat \<Rightarrow> bot_state \<Rightarrow> feed_event list \<Rightarrow> link list" where
  "run_links env N s [] = []"
| "run_links env N s (ev # evs) = tick_links N ev s @ run_links env N (runBot_step env N ev s) evs"

definition event_ids :: "feed_event \<Rightarrow> reddit_id set" where
  "event_ids ev = (case ev of TickFetched (Inr snapshot) \<Rightarrow> link_ID ` set snapshot | _ \<Rightarrow> {})"

definition event_distinct :: "feed_event \<Rightarrow> bool" where
  "event_distinct ev = (case ev of TickFetched (Inr snapshot) \<Rightarrow> distinct (map link_ID snapshot) | _ \<Rightarrow> True)"

text \<open>The hypothesis of the run lemmas: the window has no repeated id, no snapshot of the
  run repeats an id, and the window can hold every id the run sees, so it is never
  truncated.\<close>

definition window_fits :: "nat \<Rightarrow> bot_state \<Rightarrow> feed_event list \<Rightarrow> bool" where
  "window_fits N s evs \<longleftrightarrow>
     distinct (LastLinks (fetcher s)) \<and> list_all event_distinct evs \<and>
     card (set (LastLinks (fetcher s)) \<union> \<Union> (event_ids ` set evs)) \<le> N"

section \<open>The abstract feed\<close>

text \<open>The state of the spec's feed: every id seen so far, and whether the loop has
  stopped.  A step returns the new state and the items it delivers.\<close>

record feed_spec =
  spec_seen :: "reddit_id set"
  spec_stopped :: bool

definition spec_step :: "feed_event \<Rightarrow> feed_spec \<Rightarrow> feed_spec \<times> link multiset" where
  "spec_step ev a =
     (if spec_stopped a then (a, {#})
      else case ev of
        StopFeedSignal \<Rightarrow> (a\<lparr>spec_stopped := True\<rparr>, {#})
      | TickFetched (Inl err) \<Rightarrow> (a, {#})
      | TickFetched (Inr snapshot) \<Rightarrow>
          (a\<lparr>spec_seen := spec_seen a \<union> link_ID ` set snapshot\<rparr>,
           filter_mset (\<lambda>l. link_ID l \<notin> spec_seen a) (mset snapshot)))"

fun spec_run :: "feed_event list \<Rightarrow> feed_spec \<Rightarrow> feed_spec \<times> link multiset" where
  "spec_run [] a = (a, {#})"
| "spec_run (ev # evs) a =
     (let (a', d) = spec_step ev a; (a'', d') = spec_run evs a' in (a'', d + d'))"

text \<open>The abstraction of a state of the loop: the window as a set, the phase.\<close>

definition abs_state :: "bot_state \<Rightarrow> feed_spec" where
  "abs_state s = \<lparr>spec_seen = set (LastLinks (fetcher s)), spec_stopped = (phase s = Stopped)\<rparr>"

section \<open>Lemmas\<close>

lemma finite_event_ids [simp]: "finite (event_ids ev)"
  by (simp add: event_ids_def split: feed_event.splits sum.splits)

lemma event_ids_tick [simp]: "event_ids (TickFetched (Inr snapshot)) = link_ID ` set snapshot"
  by (simp add: event_ids_def)

lemma runBot_step_no_tick:
  assumes "\<not> (phase s = Running \<and> (\<exists>snapshot. ev = TickFetched (Inr snapshot)))"
  shows "fetcher (runBot_step env N ev s) = fetcher s \<and> tick_links N ev s = []"
proof (cases rule: runBot_step_cases [where s = s and ev = ev])
  case stopped
  then show ?thesis by (simp add: tick_links_def)
next
  case stop
  then show ?thesis by (simp add: runBot_step_stop tick_links_def)
next
  case (err e)
  then show ?thesis by (simp add: runBot_step_fetch_error tick_links_def GetNewPosts_def)
next
  case (tick snapshot)
  then show ?thesis using assms by blast
qed

lemma tick_links_eq:
  "tick_links N ev s =
     (if phase s = Stopped then []
      else case ev of
        TickFetched (Inr snapshot) \<Rightarrow> fst (compute_new_items N snapshot (LastLinks (fetcher s)))
      | _ \<Rightarrow> [])"
  by (simp add: tick_links_def GetNewPosts_def split: feed_event.splits sum.splits prod.splits)

lemma tick_links_ids: "link_ID ` set (tick_links N ev s) \<subseteq> event_ids ev"
  by (auto simp: tick_links_eq set_new_items event_ids_def split: feed_event.splits sum.splits)

lemma tick_links_fresh: "link_ID ` set (tick_links N ev s) \<inter> set (LastLinks (fetcher s)) = {}"
  by (auto simp: tick_links_eq set_new_items split: feed_event.splits sum.splits)

lemma tick_links_distinct: "event_distinct ev \<Longrightarrow> distinct (map link_ID (tick_links N ev s))"
  by (simp add: tick_links_eq event_distinct_def distinct_new_ids split: feed_event.splits sum.splits)

text \<open>One step without truncation: the window grows by the ids handed to handlePost and
  keeps no repeated id.\<close>

lemma runBot_step_window:
  assumes "distinct (LastLinks (fetcher s))" and "event_distinct ev"
    and "card (set (LastLinks (fetcher s)) \<union> event_ids ev) \<le> N"
  shows "set (LastLinks (fetcher (runBot_step env N ev s)))
           = set (LastLinks (fetcher s)) \<union> link_ID ` set (tick_links N ev s)
       \<and> distinct (LastLinks (fetcher (runBot_step env N ev s)))"
proof (cases "phase s = Running \<and> (\<exists>snapshot. ev = TickFetched (Inr snapshot))")
  case False
  then show ?thesis using assms(1) runBot_step_no_tick by simp
next
  case True
  then obtain snapshot where run: "phase s = Running" and ev: "ev = TickFetched (Inr snapshot)"
    by blast
  have ds: "distinct (map link_ID snapshot)" using assms(2) ev by (simp add: event_distinct_def)
  show ?thesis
    using window_no_truncation [OF ds assms(1)] window_distinct [OF ds assms(1)] assms(3) run ev
    by (auto simp: runBot_step_fetcher tick_links_eq)
qed

lemma window_card_step:
  assumes "distinct (LastLinks (fetcher s))" and "event_distinct ev" and "finite U"
    and "card (set (LastLinks (fetcher s)) \<union> (event_ids ev \<union> U)) \<le> N"
  shows "card (set (LastLinks (fetcher s)) \<union> event_ids ev) \<le> N"
    and "card (set (LastLinks (fetcher (runBot_step env N ev s))) \<union> U) \<le> N"
proof -
  show c: "card (set (LastLinks (fetcher s)) \<union> event_ids ev) \<le> N"
    using assms(3) by (rule_tac card_le_subset [OF assms(4)]) auto
  show "card (set (LastLinks (fetcher (runBot_step env N ev s))) \<union> U) \<le> N"
    using runBot_step_window [OF assms(1,2) c] tick_links_ids [of N ev s] assms(3)
    by (rule_tac card_le_subset [OF assms(4)]) auto
qed

lemma runBot_step_refines:
  assumes "distinct (LastLinks (fetcher s))" and "event_distinct ev"
    and "card (set (LastLinks (fetcher s)) \<union> event_ids ev) \<le> N"
  shows "spec_step ev (abs_state s) = (abs_state (runBot_step env N ev s), mset (tick_links N ev s))"
proof (cases rule: runBot_step_cases [where s = s and ev = ev])
  case stopped
  then show ?thesis by (simp add: spec_step_def abs_state_def tick_links_eq)
next
  case stop
  then show ?thesis by (simp add: spec_step_def abs_state_def tick_links_eq runBot_step_stop)
next
  case (err e)
  then show ?thesis by (simp add: spec_step_def abs_state_def tick_links_eq runBot_step_fetch_error)
next
  case (tick snapshot)
  have "set (LastLinks (fetcher (runBot_step env N ev s)))
          = set (LastLinks (fetcher s)) \<union> link_ID ` set snapshot"
    using runBot_step_window [OF assms] tick by (auto simp: tick_links_eq set_new_items)
  then show ?thesis
    using tick runBot_step_tick_phase [of env N snapshot s]
    by (simp add: spec_step_def abs_state_def tick_links_eq mset_new_items)
qed

lemma window_fits_Cons:
  assumes "window_fits N s (ev # evs)"
  shows "distinct (LastLinks (fetcher s))" and "event_distinct ev"
    and "card (set (LastLinks (fetcher s)) \<union> event_ids ev) \<le> N"
    and "window_fits N (runBot_step env N ev s) evs"
proof -
  have fin: "finite (\<Union> (event_ids ` set evs))" by simp
  have c: "card (set (LastLinks (fetcher s)) \<union> (event_ids ev \<union> \<Union> (event_ids ` set evs))) \<le> N"
    using assms by (simp add: window_fits_def)
  show d: "distinct (LastLinks (fetcher s))" and e: "event_distinct ev"
    using assms by (simp_all add: window_fits_def)
  show "card (set (LastLinks (fetcher s)) \<union> event_ids ev) \<le> N"
    by (rule window_card_step(1) [OF d e fin c])
  show "window_fits N (runBot_step env N ev s) evs"
    using window_card_step(1,2) [OF d e fin c] runBot_step_window [OF d e] assms
    by (simp add: window_fits_def)
qed

end
