(* ===== verification/FeedLoop.thy ===== *)
theory FeedLoop
  imports FeedRuns "HOL-Library.Stream"
begin

text \<open>
  The goroutine \<^verbatim>\<open>runBot\<close> (\<^verbatim>\<open>src/reddit/redditbot.go\<close>, lines 43--79) as
  it is written: an unbounded \<^verbatim>\<open>for\<close> over \<^verbatim>\<open>select\<close> that returns only in the
  stop case.  The events the \<^verbatim>\<open>select\<close> picks form an infinite stream; the loop is a
  \<^theory_text>\<open>partial_function (option)\<close>, so that a loop that never returns is
  \<^const>\<open>None\<close>.  The lemmas decompose a stream at its first stop request and relate the
  loop to the finite runs \<^const>\<open>runBot_run\<close> of the other theories.
\<close>

section \<open>The loop\<close>

partial_function (option) runBot_loop ::
  "bot_env \<Rightarrow> nat \<Rightarrow> feed_event stream \<Rightarrow> bot_state \<Rightarrow> bot_state option" where
  "runBot_loop env N evs s =
     (case shd evs of
        StopFeedSignal \<Rightarrow> Some (runBot_step env N StopFeedSignal s)
      | TickFetched listing \<Rightarrow> runBot_loop env N (stl evs) (runBot_step env N (TickFetched listing) s))"

text \<open>The whole goroutine: the setup of lines 45--53, then the loop.\<close>

definition runBot :: "bot_env \<Rightarrow> nat \<Rightarrow> redis_store \<Rightarrow> feed_event stream \<Rightarrow> bot_state option" where
  "runBot env N client evs = runBot_loop env N evs (runBot_start client)"

text \<open>\<^verbatim>\<open>StartFeed\<close> (lines 24--26) spawns the goroutine: its outcome is that of
  \<^const>\<open>runBot\<close>.  \<^verbatim>\<open>StopFeed\<close> (lines 28--30) sends its \<^verbatim>\<open>WaitGroup\<close> on
  \<^verbatim>\<open>stopFeedChan\<close>: the \<^verbatim>\<open>select\<close> of the loop receives it after the events
  \<open>pre\<close> it picked before the send.\<close>

definition StartFeed :: "bot_env \<Rightarrow> nat \<Rightarrow> redis_store \<Rightarrow> feed_event stream \<Rightarrow> bot_state option" where
  "StartFeed env N client evs = runBot env N client evs"

definition StopFeed :: "feed_event list \<Rightarrow> feed_event stream \<Rightarrow> feed_event stream" where
  "StopFeed pre rest = pre @- StopFeedSignal ## rest"

section \<open>Lemmas\<close>

lemma runBot_loop_prefix:
  "StopFeedSignal \<notin> set pre \<Longrightarrow>
   runBot_loop env N (pre @- StopFeedSignal ## rest) s = Some (runBot_run env N s (pre @ [StopFeedSignal]))"
proof (induction pre arbitrary: s)
  case Nil
  then show ?case by (subst runBot_loop.simps) simp
next
  case (Cons ev pre)
  then obtain listing where "ev = TickFetched listing" by (cases ev) auto
  then show ?case using Cons by (subst runBot_loop.simps) simp
qed

lemma sset_first_split:
  "x \<in> sset xs \<Longrightarrow> \<exists>pre rest. xs = pre @- x ## rest \<and> x \<notin> set pre"
proof (induction rule: sset_induct)
  fix s :: "'a stream"
  show "\<exists>pre rest. s = pre @- shd s ## rest \<and> shd s \<notin> set pre"
    by (intro exI [of _ "[]"] exI [of _ "stl s"]) simp
next
  fix s :: "'a stream" and y
  assume "\<exists>pre rest. stl s = pre @- y ## rest \<and> y \<notin> set pre"
  then obtain pre rest where split: "stl s = pre @- y ## rest" "y \<notin> set pre" by blast
  show "\<exists>pre rest. s = pre @- y ## rest \<and> y \<notin> set pre"
  proof (cases "shd s = y")
    case True
    then show ?thesis by (intro exI [of _ "[]"] exI [of _ "stl s"]) (simp flip: True)
  next
    case False
    have "s = (shd s # pre) @- y ## rest" using split(1) by (metis shift.simps(2) stream.collapse)
    then show ?thesis using False split(2) by (intro exI [of _ "shd s # pre"]) auto
  qed
qed

lemma runBot_loop_returns_stop:
  "runBot_loop env N evs s = Some r \<Longrightarrow> StopFeedSignal \<in> sset evs"
proof (rule runBot_loop.raw_induct [where P = "\<lambda>env N evs s r. StopFeedSignal \<in> sset evs"])
  fix f env N evs s r
  assume IH: "\<And>env N evs s r. f env N evs s = Some r \<Longrightarrow> StopFeedSignal \<in> sset evs"
    and eq: "(case shd evs of
        StopFeedSignal \<Rightarrow> Some (runBot_step env N StopFeedSignal s)
      | TickFetched listing \<Rightarrow> f env N (stl evs) (runBot_step env N (TickFetched listing) s)) = Some r"
  show "StopFeedSignal \<in> sset evs"
  proof (cases "shd evs")
    case StopFeedSignal
    then show ?thesis by (metis shd_sset)
  next
    case (TickFetched listing)
    then have "StopFeedSignal \<in> sset (stl evs)" using eq IH by simp
    then show ?thesis by (rule stl_sset)
  qed
qed

end
