(* ===== verification/GoSort.thy ===== *)
theory GoSort
  imports RedditIdSlice
begin

text \<open>
  Go's \<^verbatim>\<open>sort.insertionSort(data, a, b)\<close>, the routine \<^verbatim>\<open>sort.Sort\<close> runs on
  short slices, applied to a \<^verbatim>\<open>RedditIdSlice\<close>:
  \<^verbatim>\<open>
  for i := a + 1; i < b; i++ {
      for j := i; j > a && data.Less(j, j-1); j-- {
          data.Swap(j, j-1)
      }
  }
  \<close>
  The model calls the index methods of \<^verbatim>\<open>RedditIdSlice\<close> (their panics as
  \<^const>\<open>None\<close>; their log lines are not collected here).  The result: on the whole
  slice it computes the reference sort \<^const>\<open>sort_by_id\<close>, newest first and stable.
\<close>

section \<open>insertionSort\<close>

function insertion_inner :: "reddit_id list \<Rightarrow> nat \<Rightarrow> nat \<Rightarrow> reddit_id list option" where
  "insertion_inner r a j =
     (if a < j then
        (case RedditIdSlice_Less r j (j - 1) of
           None \<Rightarrow> None
         | Some (lg, lt) \<Rightarrow>
             if lt then
               (case RedditIdSlice_Swap r j (j - 1) of
                  None \<Rightarrow> None
                | Some r' \<Rightarrow> insertion_inner r' a (j - 1))
             else Some r)
      else Some r)"
  by pat_completeness auto
termination
  by (relation "measure (\<lambda>(r, a, j). j)") auto

function insertion_outer :: "reddit_id list \<Rightarrow> nat \<Rightarrow> nat \<Rightarrow> nat \<Rightarrow> reddit_id list option" where
  "insertion_outer r a b i =
     (if i < b then
        (case insertion_inner r a i of
           None \<Rightarrow> None
         | Some r' \<Rightarrow> insertion_outer r' a b (Suc i))
      else Some r)"
  by pat_completeness auto
termination
  by (relation "measure (\<lambda>(r, a, b, i). b - i)") auto

definition insertionSort :: "reddit_id list \<Rightarrow> nat \<Rightarrow> nat \<Rightarrow> reddit_id list option" where
  "insertionSort r a b = insertion_outer r a b (Suc a)"

declare insertion_inner.simps [simp del] insertion_outer.simps [simp del]

section \<open>Reference: insertion from the right\<close>

text \<open>The sort key of the reference sort: smaller is newer.\<close>

definition idk :: "reddit_id \<Rightarrow> int" where
  "idk x = - go_int64 x"

text \<open>What the inner loop does to a sorted prefix: the new id goes after every id that
  is not strictly older.\<close>

definition ins_right :: "reddit_id \<Rightarrow> reddit_id list \<Rightarrow> reddit_id list" where
  "ins_right x P = takeWhile (\<lambda>y. idk y \<le> idk x) P @ x # dropWhile (\<lambda>y. idk y \<le> idk x) P"

definition sort_lr :: "reddit_id list \<Rightarrow> reddit_id list" where
  "sort_lr xs = foldl (\<lambda>acc x. ins_right x acc) [] xs"

section \<open>Lemmas\<close>

lemma idk_eq: "idk = (\<lambda>a. - go_int64 a)"
  by (rule ext) (simp add: idk_def)

lemma id_less_idk: "id_less x y \<longleftrightarrow> idk x < idk y"
  by (simp add: id_less_iff idk_def)

lemma ins_right_snoc_older:
  assumes "sorted (map idk (Q @ [y]))" and "idk x < idk y"
  shows "ins_right x (Q @ [y]) = ins_right x Q @ [y]"
proof -
  have "\<forall>z\<in>set Q. idk z \<le> idk y" using assms(1) by (simp add: sorted_append)
  then have "dropWhile (\<lambda>z. idk z \<le> idk x) (Q @ [y]) = dropWhile (\<lambda>z. idk z \<le> idk x) Q @ [y]
           \<and> takeWhile (\<lambda>z. idk z \<le> idk x) (Q @ [y]) = takeWhile (\<lambda>z. idk z \<le> idk x) Q"
    using assms(2) by (induction Q) auto
  then show ?thesis by (simp add: ins_right_def)
qed

lemma ins_right_snoc_newer:
  assumes "sorted (map idk (Q @ [y]))" and "idk y \<le> idk x"
  shows "ins_right x (Q @ [y]) = Q @ [y, x]"
proof -
  have "\<forall>z\<in>set (Q @ [y]). idk z \<le> idk x"
    using assms by (auto simp: sorted_append)
  then have "takeWhile (\<lambda>z. idk z \<le> idk x) (Q @ [y]) = Q @ [y]"
    and "dropWhile (\<lambda>z. idk z \<le> idk x) (Q @ [y]) = []"
    by (simp_all only: takeWhile_eq_all_conv dropWhile_eq_Nil_conv)
  then show ?thesis by (simp add: ins_right_def)
qed

lemma insertion_inner_0 [simp]: "insertion_inner r a a = Some r"
  by (simp add: insertion_inner.simps)

lemma insertion_inner_insert:
  "sorted (map idk P) \<Longrightarrow> insertion_inner (P @ x # rest) 0 (length P) = Some (ins_right x P @ rest)"
proof (induction P arbitrary: rest rule: rev_induct)
  case Nil
  then show ?case by (simp add: ins_right_def)
next
  case (snoc y Q)
  have sQ: "sorted (map idk Q)" using snoc.prems by (simp add: sorted_append)
  let ?r = "Q @ y # x # rest"
  have less: "RedditIdSlice_Less ?r (Suc (length Q)) (length Q)
      = Some (parse_log x @ parse_log y, idk x < idk y)"
    by (simp add: RedditIdSlice_Less_def nth_append id_less_idk)
  show ?case
  proof (cases "idk x < idk y")
    case True
    have swap: "RedditIdSlice_Swap ?r (Suc (length Q)) (length Q) = Some (Q @ x # y # rest)"
      by (simp add: RedditIdSlice_Swap_def nth_append list_update_append)
    have "insertion_inner ?r 0 (Suc (length Q)) = insertion_inner (Q @ x # y # rest) 0 (length Q)"
      using less swap True by (subst insertion_inner.simps) simp
    also have "\<dots> = Some (ins_right x Q @ y # rest)"
      using sQ by (rule snoc.IH)
    finally show ?thesis
      using ins_right_snoc_older [OF snoc.prems True] by simp
  next
    case False
    have "insertion_inner ?r 0 (Suc (length Q)) = Some ?r"
      using less False by (subst insertion_inner.simps) simp
    then show ?thesis
      using ins_right_snoc_newer [OF snoc.prems] False by simp
  qed
qed


lemma sort_lr_snoc [simp]: "sort_lr (xs @ [x]) = ins_right x (sort_lr xs)"
  by (simp add: sort_lr_def)

lemma sort_lr_Nil [simp]: "sort_lr [] = []"
  by (simp add: sort_lr_def)

lemma mset_ins_right [simp]: "mset (ins_right x P) = add_mset x (mset P)"
proof -
  have "mset (takeWhile (\<lambda>y. idk y \<le> idk x) P) + mset (dropWhile (\<lambda>y. idk y \<le> idk x) P) = mset P"
    by (simp flip: mset_append)
  then show ?thesis by (simp add: ins_right_def)
qed

lemma mset_sort_lr [simp]: "mset (sort_lr xs) = mset xs"
  by (induction xs rule: rev_induct) simp_all

lemma length_sort_lr [simp]: "length (sort_lr xs) = length xs"
  using mset_sort_lr [of xs] by (metis size_mset)

lemma sorted_map_insert_between:
  assumes "sorted (map f T)" "sorted (map f D)"
    and "\<forall>a\<in>set T. f a \<le> f x" "\<forall>b\<in>set D. f x \<le> f b"
  shows "sorted (map f (T @ x # D))"
  using assms by (force simp: sorted_append)

lemma sorted_dropWhile_le:
  "sorted (map f P) \<Longrightarrow> \<forall>b\<in>set (dropWhile (\<lambda>y. f y \<le> c) P). c < f b"
proof (induction P)
  case (Cons p ps)
  then show ?case by (auto intro: less_le_trans)
qed simp

lemma sorted_ins_right:
  assumes "sorted (map idk P)"
  shows "sorted (map idk (ins_right x P))"
proof -
  let ?T = "takeWhile (\<lambda>y. idk y \<le> idk x) P" and ?D = "dropWhile (\<lambda>y. idk y \<le> idk x) P"
  have "sorted (map idk ?T @ map idk ?D)"
    using assms by (simp flip: map_append)
  then have sT: "sorted (map idk ?T)" and sD: "sorted (map idk ?D)"
    by (simp_all only: sorted_append)
  have T: "\<forall>a\<in>set ?T. idk a \<le> idk x"
    by (auto dest: set_takeWhileD)
  have D: "\<forall>b\<in>set ?D. idk x \<le> idk b"
    using sorted_dropWhile_le [OF assms, of "idk x"] by (simp add: less_imp_le)
  show ?thesis
    unfolding ins_right_def by (rule sorted_map_insert_between [OF sT sD T D])
qed

lemma sorted_sort_lr: "sorted (map idk (sort_lr xs))"
  by (induction xs rule: rev_induct) (simp_all add: sorted_ins_right)

lemma filter_ins_right:
  assumes "sorted (map idk P)"
  shows "filter (\<lambda>z. c = idk z) (ins_right x P) =
           filter (\<lambda>z. c = idk z) P @ (if c = idk x then [x] else [])"
proof (cases "c = idk x")
  case True
  have "\<forall>b\<in>set (dropWhile (\<lambda>y. idk y \<le> idk x) P). idk x < idk b"
    using assms by (rule sorted_dropWhile_le)
  then have "filter (\<lambda>z. c = idk z) (dropWhile (\<lambda>y. idk y \<le> idk x) P) = []"
    using True by (auto simp: filter_empty_conv)
  then have "filter (\<lambda>z. c = idk z) P = filter (\<lambda>z. c = idk z) (takeWhile (\<lambda>y. idk y \<le> idk x) P)"
    by (metis append_Nil2 filter_append takeWhile_dropWhile_id)
  then show ?thesis
    using True \<open>filter (\<lambda>z. c = idk z) (dropWhile (\<lambda>y. idk y \<le> idk x) P) = []\<close>
    by (simp add: ins_right_def)
next
  case False
  have "filter (\<lambda>z. c = idk z) P = filter (\<lambda>z. c = idk z) (takeWhile (\<lambda>y. idk y \<le> idk x) P)
      @ filter (\<lambda>z. c = idk z) (dropWhile (\<lambda>y. idk y \<le> idk x) P)"
    by (metis filter_append takeWhile_dropWhile_id)
  then show ?thesis
    using False by (simp add: ins_right_def)
qed

lemma filter_sort_lr: "filter (\<lambda>z. c = idk z) (sort_lr xs) = filter (\<lambda>z. c = idk z) xs"
proof (induction xs rule: rev_induct)
  case Nil
  then show ?case by simp
next
  case (snoc x xs)
  then show ?case
    by (simp add: filter_ins_right sorted_sort_lr)
qed

lemma sort_lr_sort_key: "sort_lr xs = sort_key idk xs"
  by (rule properties_for_sort_key [symmetric]) (simp_all add: filter_sort_lr sorted_sort_lr)

lemma insertion_outer_sort_lr:
  "i \<le> length r0 \<Longrightarrow>
   insertion_outer (sort_lr (take i r0) @ drop i r0) 0 (length r0) i = Some (sort_lr r0)"
proof (induction "length r0 - i" arbitrary: i)
  case 0
  then have "i = length r0" by simp
  then show ?case by (simp add: insertion_outer.simps)
next
  case (Suc k)
  then have i: "i < length r0" by simp
  have split: "sort_lr (take i r0) @ drop i r0 = sort_lr (take i r0) @ r0 ! i # drop (Suc i) r0"
    using i by (simp add: Cons_nth_drop_Suc)
  have "insertion_inner (sort_lr (take i r0) @ r0 ! i # drop (Suc i) r0) 0 i
      = Some (ins_right (r0 ! i) (sort_lr (take i r0)) @ drop (Suc i) r0)"
    using insertion_inner_insert [OF sorted_sort_lr, of "take i r0" "r0 ! i" "drop (Suc i) r0"] i
    by simp
  also have "ins_right (r0 ! i) (sort_lr (take i r0)) = sort_lr (take (Suc i) r0)"
    using i by (simp add: take_Suc_conv_app_nth)
  finally have inner: "insertion_inner (sort_lr (take i r0) @ drop i r0) 0 i
      = Some (sort_lr (take (Suc i) r0) @ drop (Suc i) r0)"
    using split by simp
  have "insertion_outer (sort_lr (take (Suc i) r0) @ drop (Suc i) r0) 0 (length r0) (Suc i) = Some (sort_lr r0)"
    using Suc.hyps(2) i by (intro Suc.hyps(1)) simp_all
  then show ?case
    using i inner by (subst insertion_outer.simps) simp
qed

lemma insertionSort_whole: "insertionSort r 0 (length r) = Some (sort_by_id (\<lambda>x. x) r)"
proof (cases r)
  case Nil
  then show ?thesis by (simp add: insertionSort_def insertion_outer.simps)
next
  case (Cons x xs)
  have "insertion_outer (sort_lr (take 1 r) @ drop 1 r) 0 (length r) 1 = Some (sort_lr r)"
    using Cons by (intro insertion_outer_sort_lr) simp
  moreover have "sort_lr (take 1 r) @ drop 1 r = r"
    using Cons by (simp add: sort_lr_def ins_right_def)
  ultimately show ?thesis
    by (simp add: insertionSort_def sort_lr_sort_key sort_by_id_sort_key idk_eq)
qed

subsection \<open>Sub-ranges and totality\<close>

text \<open>\<^verbatim>\<open>Less\<close> and \<^verbatim>\<open>Swap\<close> on the indices of a segment \<open>M\<close> of \<open>P @ M @ Q\<close> act as on
  \<open>M\<close> alone.\<close>

lemma Less_shift:
  "i < length M \<Longrightarrow> j < length M \<Longrightarrow>
   RedditIdSlice_Less (P @ M @ Q) (length P + i) (length P + j) = RedditIdSlice_Less M i j"
  by (simp add: RedditIdSlice_Less_def nth_append)

lemma Swap_shift:
  "i < length M \<Longrightarrow> j < length M \<Longrightarrow>
   RedditIdSlice_Swap (P @ M @ Q) (length P + i) (length P + j)
     = map_option (\<lambda>m. P @ m @ Q) (RedditIdSlice_Swap M i j)"
  by (simp add: RedditIdSlice_Swap_def nth_append list_update_append)

lemma length_Swap: "RedditIdSlice_Swap r i j = Some r' \<Longrightarrow> length r' = length r"
  by (auto simp: RedditIdSlice_Swap_def Let_def split: if_splits)

lemma insertion_inner_shift:
  "j < length M \<Longrightarrow>
   insertion_inner (P @ M @ Q) (length P) (length P + j) = map_option (\<lambda>m. P @ m @ Q) (insertion_inner M 0 j)"
proof (induction j arbitrary: M)
  case 0
  then show ?case by simp
next
  case (Suc j)
  have j: "j < length M" using Suc.prems by simp
  show ?case
  proof (cases "id_less (M ! Suc j) (M ! j)")
    case True
    obtain M' where sw: "RedditIdSlice_Swap M (Suc j) j = Some M'"
      using Suc.prems j by (simp add: RedditIdSlice_Swap_def)
    then have "length M' = length M" by (rule length_Swap)
    then show ?thesis
      using Suc.IH [of M'] Suc.prems j True sw Less_shift [OF Suc.prems j, of P Q] Swap_shift [OF Suc.prems j, of P Q]
      by (subst (1 2) insertion_inner.simps) (simp add: RedditIdSlice_Less_def)
  next
    case False
    then show ?thesis
      using Suc.prems j Less_shift [OF Suc.prems j, of P Q]
      by (subst (1 2) insertion_inner.simps) (simp add: RedditIdSlice_Less_def)
  qed
qed

lemma insertion_inner_total:
  "j < length r \<Longrightarrow> \<exists>r'. insertion_inner r a j = Some r' \<and> length r' = length r"
proof (induction j arbitrary: r)
  case 0
  then show ?case by (simp add: insertion_inner.simps)
next
  case (Suc j)
  obtain r'' where sw: "RedditIdSlice_Swap r (Suc j) j = Some r''"
    using Suc.prems by (simp add: RedditIdSlice_Swap_def)
  have "length r'' = length r"
    using sw by (rule length_Swap)
  then show ?case
    using Suc.IH [of r''] Suc.prems sw
    by (subst insertion_inner.simps) (auto simp: RedditIdSlice_Less_def)
qed

lemma insertion_outer_shift:
  "i \<le> length M \<Longrightarrow>
   insertion_outer (P @ M @ Q) (length P) (length P + length M) (length P + i)
     = map_option (\<lambda>m. P @ m @ Q) (insertion_outer M 0 (length M) i)"
proof (induction "length M - i" arbitrary: i M)
  case 0
  then show ?case by (subst (1 2) insertion_outer.simps) simp
next
  case (Suc k)
  then have i: "i < length M" by simp
  obtain m where m: "insertion_inner M 0 i = Some m" "length m = length M"
    using insertion_inner_total [OF i] by blast
  have "insertion_outer (P @ m @ Q) (length P) (length P + length m) (length P + Suc i)
      = map_option (\<lambda>m. P @ m @ Q) (insertion_outer m 0 (length m) (Suc i))"
    using Suc.hyps(2) i m(2) by (intro Suc.hyps(1)) simp_all
  then show ?case
    using i m insertion_inner_shift [OF i, of P Q]
    by (subst (1 2) insertion_outer.simps) simp
qed

lemma insertionSort_shift:
  "insertionSort (P @ M @ Q) (length P) (length P + length M)
     = map_option (\<lambda>m. P @ m @ Q) (insertionSort M 0 (length M))"
proof (cases M)
  case Nil
  then show ?thesis by (simp add: insertionSort_def insertion_outer.simps)
next
  case (Cons x xs)
  then show ?thesis
    using insertion_outer_shift [of 1 M P Q] by (simp add: insertionSort_def)
qed

lemma insertion_outer_out_of_range:
  "Suc a \<le> i \<Longrightarrow> i < b \<Longrightarrow> length r < b \<Longrightarrow> insertion_outer r a b i = None"
proof (induction "length r - i" arbitrary: i r)
  case 0
  then show ?case
    by (subst insertion_outer.simps, subst insertion_inner.simps) (simp add: RedditIdSlice_Less_def)
next
  case (Suc k)
  then have i: "i < length r" by simp
  obtain r' where r': "insertion_inner r a i = Some r'" "length r' = length r"
    using insertion_inner_total [OF i] by blast
  have "insertion_outer r' a b (Suc i) = None"
    using Suc.hyps(2) Suc.prems i r'(2) by (intro Suc.hyps(1)) simp_all
  then show ?case
    using Suc.prems r' by (subst insertion_outer.simps) simp
qed

end
