(* ===== verification/IdOrder.thy ===== *)
theory IdOrder
  imports RedditIdSlice
begin

text \<open>
  The order of reddit ids as reddit writes them: lower-case base-36 numerals without a
  leading zero (\<open>canonical_id\<close>).  Up to twelve digits the value fits an int64,
  and then the numeric order \<^verbatim>\<open>RedditIdSlice.Less\<close> computes is the shortlex order of
  the strings: a longer id is newer, ids of the same length compare by their bytes.  The
  plain lexicographic order of the strings, which the spec warns against, differs.
\<close>

section \<open>Canonical ids and shortlex order\<close>

definition canonical_digit :: "char \<Rightarrow> bool" where
  "canonical_digit c \<longleftrightarrow>
     (48 \<le> (of_char c :: nat) \<and> (of_char c :: nat) \<le> 57) \<or> (97 \<le> (of_char c :: nat) \<and> (of_char c :: nat) \<le> 122)"

definition canonical_id :: "reddit_id \<Rightarrow> bool" where
  "canonical_id s \<longleftrightarrow> s \<noteq> [] \<and> list_all canonical_digit s \<and> hd s \<noteq> CHR ''0'' \<and> length s \<le> 12"

text \<open>\<open>x\<close> comes before \<open>y\<close> in shortlex order, on the byte values.\<close>

definition shortlex_newer :: "reddit_id \<Rightarrow> reddit_id \<Rightarrow> bool" where
  "shortlex_newer x y \<longleftrightarrow>
     length y < length x \<or>
     (length x = length y \<and> ord_class.lexordp (map (of_char :: char \<Rightarrow> nat) y) (map of_char x))"

section \<open>Lemmas\<close>

definition dval :: "char \<Rightarrow> nat" where
  "dval c = (case digit_val c of None \<Rightarrow> 0 | Some d \<Rightarrow> d)"

lemma digits_value_Cons: "digits_value acc (c # cs) = digits_value (acc * 36 + dval c) cs"
  by (simp add: dval_def)

lemma dval_less: "dval c < 36"
  by (auto simp: dval_def dest: digit_val_less split: option.splits)

lemma digits_value_acc: "digits_value acc cs = acc * 36 ^ length cs + digits_value 0 cs"
proof (induction cs arbitrary: acc)
  case (Cons c cs)
  have "digits_value acc (c # cs) = (acc * 36 + dval c) * 36 ^ length cs + digits_value 0 cs"
    by (simp only: digits_value_Cons Cons.IH [of "acc * 36 + dval c"])
  moreover have "digits_value 0 (c # cs) = dval c * 36 ^ length cs + digits_value 0 cs"
    using Cons.IH [of "dval c"] by (simp only: digits_value_Cons) simp
  ultimately show ?case by (simp add: algebra_simps)
qed simp

lemma digits_value_0_Cons: "digits_value 0 (c # cs) = dval c * 36 ^ length cs + digits_value 0 cs"
  using digits_value_acc [of "dval c" cs] by (simp only: digits_value_Cons) simp

lemma digits_value_less: "digits_value 0 cs < 36 ^ length cs"
proof (induction cs)
  case (Cons c cs)
  have "dval c * 36 ^ length cs + digits_value 0 cs < (dval c + 1) * 36 ^ length cs"
    using Cons.IH by simp
  also have "\<dots> \<le> 36 * 36 ^ length cs"
    using dval_less [of c] by (intro mult_right_mono) simp_all
  finally show ?case by (simp only: digits_value_0_Cons) simp
qed simp

lemma or32_lower_range: "\<forall>n\<in>set [97..<123]. (n :: nat) OR 32 = n"
  by (simp add: upt_rec)

lemma digit_val_canonical:
  assumes "canonical_digit c"
  shows "digit_val c = Some (if (of_char c :: nat) \<le> 57 then of_char c - 48 else of_char c - 87)"
proof (cases "(of_char c :: nat) \<le> 57")
  case True
  then show ?thesis using assms by (simp add: canonical_digit_def digit_val_def)
next
  case False
  then have r: "97 \<le> (of_char c :: nat) \<and> (of_char c :: nat) \<le> 122"
    using assms by (simp add: canonical_digit_def)
  then have "(of_char c :: nat) \<in> set [97..<123]"
    by (simp only: set_upt atLeastLessThan_iff) auto
  then have "(of_char c :: nat) OR 32 = of_char c"
    by (rule bspec [OF or32_lower_range])
  then have "(of_char (lower c) :: nat) = of_char c"
    by (simp add: lower_def)
  then show ?thesis using False r by (simp add: digit_val_def)
qed

lemma dval_canonical:
  "canonical_digit c \<Longrightarrow> dval c = (if (of_char c :: nat) \<le> 57 then of_char c - 48 else of_char c - 87)"
  by (simp add: dval_def digit_val_canonical)

lemma canonical_valid36: "canonical_digit c \<Longrightarrow> valid36 c"
  by (simp add: valid36_def digit_val_canonical)

lemma char_zero_iff: "c = CHR ''0'' \<longleftrightarrow> (of_char c :: nat) = 48"
proof -
  have "(of_char (CHR ''0'') :: nat) = 48" by simp
  then show ?thesis by (metis of_char_eq_iff)
qed

lemma dval_zero: "canonical_digit c \<Longrightarrow> dval c = 0 \<longleftrightarrow> c = CHR ''0''"
  unfolding char_zero_iff by (auto simp: dval_canonical canonical_digit_def)

lemma dval_mono:
  "canonical_digit c \<Longrightarrow> canonical_digit d \<Longrightarrow> dval c < dval d \<longleftrightarrow> (of_char c :: nat) < of_char d"
  by (auto simp: dval_canonical canonical_digit_def)

lemma dval_inj:
  "canonical_digit c \<Longrightarrow> canonical_digit d \<Longrightarrow> dval c = dval d \<Longrightarrow> c = d"
  by (metis dval_mono of_char_eq_iff nat_neq_iff)

lemma horner_less:
  fixes a b u v :: nat
  assumes "a < b" and "u < 36 ^ n"
  shows "a * 36 ^ n + u < b * 36 ^ n + v"
proof -
  have "a * 36 ^ n + u < (a + 1) * 36 ^ n" using assms(2) by simp
  also have "\<dots> \<le> b * 36 ^ n" using assms(1) by (intro mult_right_mono) simp_all
  finally show ?thesis by simp
qed

lemma digits_value_lex:
  "length x = length y \<Longrightarrow> list_all canonical_digit x \<Longrightarrow> list_all canonical_digit y \<Longrightarrow>
   digits_value 0 x < digits_value 0 y \<longleftrightarrow> ord_class.lexordp (map (of_char :: char \<Rightarrow> nat) x) (map of_char y)"
proof (induction x arbitrary: y)
  case Nil
  then show ?case by simp
next
  case (Cons c xs)
  then obtain d ys where y: "y = d # ys" and len: "length xs = length ys"
    by (cases y) auto
  have cd: "canonical_digit c" "canonical_digit d"
    using Cons.prems y by simp_all
  let ?n = "length xs"
  have vx: "digits_value 0 (c # xs) = dval c * 36 ^ ?n + digits_value 0 xs"
    and vy: "digits_value 0 y = dval d * 36 ^ ?n + digits_value 0 ys"
    using len by (simp_all only: y digits_value_0_Cons)
  consider "dval c < dval d" | "dval c = dval d" | "dval d < dval c" by linarith
  then show ?case
  proof cases
    case 1
    then show ?thesis
      using horner_less [OF 1 digits_value_less] vx vy y dval_mono [OF cd] by simp
  next
    case 2
    then have "c = d" using dval_inj [OF cd] by simp
    then show ?thesis
      using Cons.IH [of ys] Cons.prems y len vx vy 2 by simp
  next
    case 3
    have "digits_value 0 y < digits_value 0 (c # xs)"
      using horner_less [OF 3, of "digits_value 0 ys"] digits_value_less [of ys] len vx vy by simp
    then show ?thesis
      using 3 y dval_mono [OF cd(2,1)] by simp
  qed
qed

lemma canonical_value_lower:
  assumes "canonical_id s"
  shows "36 ^ (length s - 1) \<le> digits_value 0 s"
proof -
  obtain c cs where s: "s = c # cs" and c: "canonical_digit c" "c \<noteq> CHR ''0''"
    using assms by (cases s) (auto simp: canonical_id_def)
  have "1 \<le> dval c" using dval_zero [OF c(1)] c(2) by linarith
  then have "36 ^ length cs \<le> dval c * 36 ^ length cs" by simp
  then show ?thesis unfolding s digits_value_0_Cons length_Cons diff_Suc_1 by (rule le_trans [OF _ le_add1])
qed

lemma canonical_value_small: "canonical_id s \<Longrightarrow> digits_value 0 s < 2 ^ 63"
proof -
  assume "canonical_id s"
  then have "(36::nat) ^ length s \<le> 36 ^ 12"
    by (intro power_increasing) (simp_all add: canonical_id_def)
  then show ?thesis using digits_value_less [of s] by simp
qed

lemma go_int64_canonical: "canonical_id s \<Longrightarrow> go_int64 s = int (digits_value 0 s)"
  using canonical_value_small [of s]
  by (auto simp: go_int64_def canonical_id_def parse_int_unsigned sint_of_nat_small list_all_iff
           canonical_valid36)

lemma canonical_longer_greater:
  assumes "canonical_id x" and "length y < length x"
  shows "digits_value 0 y < digits_value 0 x"
proof -
  have "digits_value 0 y < 36 ^ length y" by (rule digits_value_less)
  also have "\<dots> \<le> 36 ^ (length x - 1)" using assms(2) by (intro power_increasing) simp_all
  also have "\<dots> \<le> digits_value 0 x" using assms(1) by (rule canonical_value_lower)
  finally show ?thesis .
qed

end
