(* ===== verification/ClientSetup.thy ===== *)
theory ClientSetup
  imports Prelude
begin

text \<open>
  The configuration of the reddit client (\<^verbatim>\<open>src/reddit/redditbot.go\<close>, lines
  18--23 and 32--34): the four credentials read from the process environment with
  \<^verbatim>\<open>os.Getenv\<close>, which yields the empty string for an unset variable, and the
  user agent string \<^verbatim>\<open>UserAgent\<close> formats with \<^verbatim>\<open>fmt.Sprintf\<close>.  The version
  number \<^verbatim>\<open>common.VERSIONNUMBER\<close> is defined outside \<^verbatim>\<open>src/\<close> and is a
  parameter.  \<^verbatim>\<open>setupClient\<close> (OAuth) is I/O and is not modelled.  The reference
  parser \<open>parse_user_agent\<close> reads back reddit's user agent format
  \<open>platform:app id:version (by /u/user)\<close>.
\<close>

section \<open>Credentials and UserAgent\<close>

record reddit_credentials =
  ClientID :: string
  ClientSecret :: string
  RedirectURI :: string
  RefreshToken :: string

text \<open>\<^verbatim>\<open>os.Getenv\<close> over a process environment.\<close>

definition Getenv :: "(string \<Rightarrow> string option) \<Rightarrow> string \<Rightarrow> string" where
  "Getenv environ key = (case environ key of None \<Rightarrow> [] | Some v \<Rightarrow> v)"

definition load_credentials :: "(string \<Rightarrow> string option) \<Rightarrow> reddit_credentials" where
  "load_credentials environ =
     \<lparr>ClientID = Getenv environ ''YAGPDB_REDDIT_CLIENTID'',
      ClientSecret = Getenv environ ''YAGPDB_REDDIT_CLIENTSECRET'',
      RedirectURI = Getenv environ ''YAGPDB_REDDIT_REDIRECT'',
      RefreshToken = Getenv environ ''YAGPDB_REDDIT_REFRESHTOKEN''\<rparr>"

text \<open>\<^verbatim>\<open>fmt.Sprintf("YAGPDB:%s:%s (by /u/jonas747)", ClientID, common.VERSIONNUMBER)\<close>:
  each \<^verbatim>\<open>%s\<close> of a string is the string itself.\<close>

definition UserAgent :: "reddit_credentials \<Rightarrow> string \<Rightarrow> string" where
  "UserAgent cred version = ''YAGPDB:'' @ ClientID cred @ '':'' @ version @ '' (by /u/jonas747)''"

section \<open>Reading the user agent back\<close>

definition ua_prefix :: string where
  "ua_prefix = ''YAGPDB:''"

definition ua_suffix :: string where
  "ua_suffix = '' (by /u/jonas747)''"

text \<open>Platform, app id and version of a user agent \<open>YAGPDB:id:version (by /u/jonas747)\<close>:
  the app id runs to the first colon after the platform.\<close>

definition parse_user_agent :: "string \<Rightarrow> (string \<times> string \<times> string) option" where
  "parse_user_agent s =
     (if take (length ua_prefix) s = ua_prefix \<and> length ua_prefix + length ua_suffix \<le> length s
         \<and> drop (length s - length ua_suffix) s = ua_suffix
      then (let body = take (length s - length ua_prefix - length ua_suffix) (drop (length ua_prefix) s);
                rest = dropWhile (\<lambda>c. c \<noteq> CHR '':'') body
            in if rest = [] then None
               else Some (''YAGPDB'', takeWhile (\<lambda>c. c \<noteq> CHR '':'') body, tl rest))
      else None)"

section \<open>Lemmas\<close>

lemma UserAgent_split: "UserAgent cred version = ua_prefix @ (ClientID cred @ '':'' @ version) @ ua_suffix"
  by (simp add: UserAgent_def ua_prefix_def ua_suffix_def)

lemma parse_user_agent_frame:
  "parse_user_agent (ua_prefix @ body @ ua_suffix) =
     (let rest = dropWhile (\<lambda>c. c \<noteq> CHR '':'') body
      in if rest = [] then None else Some (''YAGPDB'', takeWhile (\<lambda>c. c \<noteq> CHR '':'') body, tl rest))"
  by (simp add: parse_user_agent_def Let_def)

lemma split_first_colon:
  "CHR '':'' \<notin> set a \<Longrightarrow>
   takeWhile (\<lambda>c. c \<noteq> CHR '':'') (a @ CHR '':'' # b) = a
   \<and> dropWhile (\<lambda>c. c \<noteq> CHR '':'') (a @ CHR '':'' # b) = CHR '':'' # b"
  by (induction a) auto

end
