(* ===== verification/Spec2Isabelle.thy ===== *)
theory Spec2Isabelle
  imports FeedLoop GoSort IdOrder ClientSetup
begin

text \<open>
  \<^bold>\<open>The reddit feed of yagpdb, verified.\<close>
  The program is \<^verbatim>\<open>src/reddit/redditbot.go\<close>: a goroutine (\<^verbatim>\<open>runBot\<close>, started
  by \<^verbatim>\<open>StartFeed\<close>, stopped by \<^verbatim>\<open>StopFeed\<close>) that every five seconds asks the
  post fetcher for the new reddit posts and hands each to \<^verbatim>\<open>handlePost\<close>, which
  looks up the discord channels watching the post's subreddit and sends them an embed.
  The fetcher keeps a window of recently seen ids, persisted in redis under
  \<^verbatim>\<open>reddit_last_links\<close> and reloaded at start by \<^verbatim>\<open>getLastIds\<close>; ids are ordered
  by \<^verbatim>\<open>RedditIdSlice.Less\<close>, which decodes them with \<^verbatim>\<open>strconv.ParseInt(_, 36, 64)\<close>.
  The fetcher itself (\<^verbatim>\<open>NewPostFetcher\<close>, \<^verbatim>\<open>GetNewPosts\<close>) and the redis helpers
  of \<^verbatim>\<open>common\<close> are not under \<^verbatim>\<open>src/\<close>; they are modelled from the spec.

  \<^bold>\<open>Theories, in import order.\<close>
  \<^item> \<^verbatim>\<open>Prelude\<close>: the model's type names (ids, channels, the redis store as a map
    from keys to strings), \<^typ>\<open>log_entry\<close> with one constructor per \<^verbatim>\<open>logrus\<close>
    call of the file, first-occurrence deduplication \<^const>\<open>remdups_first\<close>.
  \<^item> \<^verbatim>\<open>ClientSetup\<close> (lines 18--23, 32--34): \<^typ>\<open>reddit_credentials\<close> read with
    \<^const>\<open>Getenv\<close> (the empty string when unset) by \<^const>\<open>load_credentials\<close>, the
    user agent \<^const>\<open>UserAgent\<close>, and the reference parser
    \<^const>\<open>parse_user_agent\<close> of reddit's user agent format.
  \<^item> \<^verbatim>\<open>GoStrconv\<close>: \<^verbatim>\<open>strconv.ParseInt(s, 36, 64)\<close> as called at lines 181--182:
    \<^const>\<open>digit_val\<close> (with Go's \<^verbatim>\<open>lower\<close>), the digit loop
    \<^const>\<open>parse_uint_digits\<close> on \<^typ>\<open>64 word\<close> with the cutoff test and the
    wrap-around test, \<^const>\<open>parse_uint\<close>, \<^const>\<open>parse_int\<close> with sign and
    clamping, and \<^const>\<open>go_int64\<close>, the int64 \<^verbatim>\<open>Less\<close> compares.  The
    reference semantics is \<^const>\<open>digits_value\<close> (the numeral's value in \<^typ>\<open>nat\<close>)
    and \<^const>\<open>encode36\<close> (how reddit writes ids).  Lemma
    \<open>parse_uint_digits_value\<close> shows the loop exact below \<open>2^64\<close> and reporting
    ErrRange from there on.
  \<^item> \<^verbatim>\<open>RedditIdSlice\<close> (lines 171--198): \<^const>\<open>RedditIdSlice_Len\<close>,
    \<^const>\<open>RedditIdSlice_Less\<close> (comparison \<^const>\<open>id_less\<close> plus its error
    logging), \<^const>\<open>RedditIdSlice_Swap\<close>; an index out of range, a panic in Go, is
    \<^const>\<open>None\<close>.  \<^const>\<open>sort_by_id\<close> is the newest-first stable insertion sort
    the engine applies with this order; \<open>sort_by_id_sort_key\<close> proves it equal to
    the library's \<^const>\<open>sort_key\<close>, from which permutation, order and stability follow.
  \<^item> \<^verbatim>\<open>RedisJson\<close>: \<^const>\<open>getLastIds\<close> (lines 81--89), which logs an error
    and returns \<^verbatim>\<open>result\<close> in any case, over \<^const>\<open>GetRedisJson\<close> (the error and
    the slice \<^verbatim>\<open>json.Unmarshal\<close> leaves) and \<^const>\<open>SetRedisJson\<close>; the encoder
    \<^const>\<open>encode_json\<close> and the byte automaton \<^const>\<open>json_dec\<close> for arrays whose
    elements are strings, numbers, booleans or \<open>null\<close> (a wrong-typed element leaves the
    empty string and a type error, as Go does).  \<open>decode_encode_json\<close> is the round
    trip; \<open>decode_encode_scalars\<close> decodes any stored array of scalars
    (\<^typ>\<open>jscalar\<close>, \<^const>\<open>encode_scalars\<close>).
  \<^item> \<^verbatim>\<open>PostFetcher\<close> (spec 4.1, 4.2, 6): \<^typ>\<open>link\<close> (the fields of
    \<^verbatim>\<open>reddit.Link\<close> the file reads), \<^const>\<open>compute_new_items\<close> (new iff the id
    is not in the window; new items newest first; window = the \<open>N\<close> newest of the new
    ids and the old window), and \<^const>\<open>GetNewPosts\<close>, which also writes the window to
    redis.  \<open>sort_by_id_partition\<close> and \<open>length_fresh_plus_seen\<close> carry the
    idempotence proof.
  \<^item> \<^verbatim>\<open>HandlePost\<close> (lines 91--169): \<^const>\<open>config_key\<close>,
    \<^const>\<open>effective_channel\<close>, the loops \<^const>\<open>channel_listed\<close> and
    \<^const>\<open>collect_channels\<close>, \<^const>\<open>build_embed\<close>, the send loop
    \<^const>\<open>send_embeds\<close> and \<^const>\<open>handlePost\<close>.  Its collaborators are the
    fields of \<^typ>\<open>bot_env\<close> (GetConfig, \<^verbatim>\<open>Conf.Host\<close>,
    \<^verbatim>\<open>CutStringShort\<close>, the outcome of \<^verbatim>\<open>ChannelMessageSendEmbed\<close>); its
    effects are \<^typ>\<open>effects\<close>: the send attempts in order and the log.
  \<^item> \<^verbatim>\<open>RunBot\<close> (lines 25--79): \<^typ>\<open>bot_state\<close> (phase, fetcher, redis,
    effects, number of \<^verbatim>\<open>wg.Done\<close> calls), \<^const>\<open>runBot_start\<close>, one iteration
    \<^const>\<open>runBot_step\<close> per \<^typ>\<open>feed_event\<close>, runs \<^const>\<open>runBot_run\<close>,
    the reachable states \<^const>\<open>reachable\<close> and the invariant \<^const>\<open>feed_inv\<close>
    proved by rule induction (\<open>reachable_feed_inv\<close>).
  \<^item> \<^verbatim>\<open>GoSort\<close>: Go's \<^verbatim>\<open>sort.insertionSort\<close> (standard library, not in the
    repository) over a \<^verbatim>\<open>RedditIdSlice\<close>: the inner loop
    \<^const>\<open>insertion_inner\<close> calls \<^const>\<open>RedditIdSlice_Less\<close> and
    \<^const>\<open>RedditIdSlice_Swap\<close> (a panic of either is \<^const>\<open>None\<close>), the outer
    loop \<^const>\<open>insertion_outer\<close>, both \<^verbatim>\<open>function\<close>s terminating by a measure
    on the index.  The reference \<^const>\<open>sort_lr\<close> inserts each id after every id that
    is not strictly older (\<^const>\<open>ins_right\<close>); \<open>insertion_inner_insert\<close> shows
    one inner loop is that insertion, \<open>sort_lr_sort_key\<close> that the reference is
    \<^const>\<open>sort_key\<close>.  \<open>insertionSort_shift\<close> reduces a range \<open>[a, b)\<close> of a slice
    to the whole of the segment (the methods on shifted indices act on the segment),
    \<open>insertion_inner_total\<close> shows the inner loop never panics within the slice.
  \<^item> \<^verbatim>\<open>IdOrder\<close>: ids as reddit writes them (\<^const>\<open>canonical_id\<close>:
    lower-case base-36, no leading zero, at most twelve digits) and the shortlex order
    \<^const>\<open>shortlex_newer\<close>; the Horner lemmas on \<^const>\<open>digits_value\<close> (bounds by
    length, \<open>digits_value_lex\<close>: on equal lengths the value order is the byte order).
  \<^item> \<^verbatim>\<open>FeedRuns\<close>: whole runs.  \<^const>\<open>tick_links\<close> is the \<^verbatim>\<open>links\<close> one
    iteration hands to handlePost, \<^const>\<open>run_links\<close> their concatenation over a run;
    the spec's abstract feed \<^typ>\<open>feed_spec\<close> (the set of ids ever seen, stopped or
    not) with \<^const>\<open>spec_step\<close> and \<^const>\<open>spec_run\<close>, the abstraction
    \<^const>\<open>abs_state\<close>, and the hypothesis \<^const>\<open>window_fits\<close> under which the
    window is never truncated; \<open>runBot_step_refines\<close> is the one-step simulation.
  \<^item> \<^verbatim>\<open>FeedLoop\<close>: the goroutine as written, \<^const>\<open>runBot\<close> = setup followed
    by \<^const>\<open>runBot_loop\<close>, the unbounded \<^verbatim>\<open>for\<close>/\<^verbatim>\<open>select\<close> as a
    \<^theory_text>\<open>partial_function (option)\<close> over an infinite \<^typ>\<open>feed_event stream\<close>
    (\<^const>\<open>None\<close>: it never returns).  \<open>runBot_loop_prefix\<close> evaluates it on a stream
    split at its first stop request, \<open>runBot_loop_returns_stop\<close> (by the rule
    \<open>runBot_loop.raw_induct\<close>) shows a returning loop has seen one.
  \<^item> this theory: the properties C1--C26 with their witnesses.

  \<^bold>\<open>Interaction and time.\<close>  Go's \<^verbatim>\<open>select\<close> between the stop channel and
  the ticker is a choice of the environment, so a run is a list of events: a stop
  request, or a tick carrying the listing (or error) the reddit client returned.  All
  loops of the file are structural recursions (digit loop, channel loops, send loop, the
  \<^verbatim>\<open>range links\<close> loop); the infinite \<^verbatim>\<open>for\<close> of \<^verbatim>\<open>runBot\<close> is the
  step function over finite event prefixes, and the loop itself is a partial function
  over an infinite stream whose non-termination is the value \<^const>\<open>None\<close>; no fuel
  is needed.  The page size \<open>N\<close>
  of the fetcher is a parameter: the source fixes it outside \<^verbatim>\<open>src/\<close>.

  \<^bold>\<open>What is proved.\<close>
  \<^item> Poll loop and engine (C1--C6): a tick hands to handlePost exactly the snapshot
    posts not in the window, with their multiplicities, newest first (C1); truncation
    keeps the newest ids (C2); re-polling a snapshot newer than the rest of the window
    delivers nothing (C3), an idempotence that needs these hypotheses (spec 8 states it
    without them); a restart resumes with the same window (C4); the stop handshake is
    released once, exactly when stopped (C5); a failed fetch only logs (C6).
  \<^item> handlePost (C7--C9): one attempt per distinct channel, in configuration order,
    whatever fails (C7); one log line per failed send (C8); a configuration error is
    returned with nothing sent (C9).
  \<^item> Ids (C10--C13, C17, C19): a syntax error compares as 0, tying malformed ids with
    \<open>0\<close> against spec 4.1 (C10); ParseInt gives the exact value or the clamp, never a
    wrapped value (C11, C13), inverts the base-36 encoding (C12) and handles signs (C17);
    on canonical ids \<^verbatim>\<open>Less\<close> is shortlex order, not string order (C19); twelve digits
    is the bound because \<open>36^12 < 2^63 \<le> 36^13\<close>.
  \<^item> Persistence (C14, C15): the window written is the window read back (C14); after a
    type error \<^verbatim>\<open>getLastIds\<close> still returns what \<^verbatim>\<open>json.Unmarshal\<close> filled in, so a
    buffer such as \<open>[1, 2]\<close> resumes with the window \<open>["", ""]\<close> and both log lines (C15).
  \<^item> Go's insertionSort on any range of a \<^verbatim>\<open>RedditIdSlice\<close> never panics and sorts it as
    \<^const>\<open>sort_by_id\<close> (C16); on a range past the end it panics (C22).
  \<^item> A tick keeps the window free of repeated ids when the snapshot has none (C18).
  \<^item> Runs (C20, C21, C23): while the window can hold every id a run sees and no snapshot
    repeats an id, no id is handed to handlePost twice (C20), and the loop refines the
    spec's feed: same seen-set, same stopped flag, same multiset of deliveries (C21).  A
    stop request in a run always ends it stopped with the handshake released once (C23).
  \<^item> The real loop (C24, C25): it returns exactly when a stop request occurs in the
    event stream (C24); started with \<^const>\<open>StartFeed\<close> and stopped with
    \<^const>\<open>StopFeed\<close> it returns the state of the finite run up to the request, stopped
    and released once (C25), so the run lemmas describe the goroutine itself.
  \<^item> The user agent is in reddit's format and gives back the client id and the version
    when the id has no colon (C26).

  \<^bold>\<open>Not modelled.\<close>  \<^verbatim>\<open>setupClient\<close> (the OAuth authenticator and token
  exchange of the reddit library: network I/O); the import block and package clause;
  \<^verbatim>\<open>common.VERSIONNUMBER\<close>, a parameter; the timer; \<^verbatim>\<open>strings.ToLower\<close> beyond ASCII; Go's
  \<^verbatim>\<open>json.Marshal\<close> HTML escaping and invalid UTF-8 replacement; in
  \<^verbatim>\<open>json.Unmarshal\<close>, nested arrays or objects as elements and non-array
  top-level values (rejected here; Go reports a type error) and \<^verbatim>\<open>\u\<close> escapes of code
  points from 128 (rejected here; Go decodes them);
  \<^verbatim>\<open>CutStringShort\<close> and \<^verbatim>\<open>GetConfig\<close>, which are parameters; the
  pdqsort and heapsort paths of Go's \<^verbatim>\<open>sort.Sort\<close> on slices longer than 12
  (not stable): the engine's sort is the stable reference sort, which insertionSort, the
  path for short slices, computes (C16); the log lines of \<^verbatim>\<open>Less\<close> inside
  insertionSort are dropped.

  \<^bold>\<open>Further work.\<close>  Delivery across several ticks for a source whose ids grow
  (a truncated window forgets only ids older than every new one); the logs of a run; the
  restart of a run from the stored window composed with C21.
\<close>

section \<open>Samples for the witnesses\<close>

abbreviation sample_post :: "reddit_id \<Rightarrow> link" where
  "sample_post i \<equiv> \<lparr>link_ID = i, link_Subreddit = ''golang'', link_Author = ''gopher'',
     link_Title = ''Go 1.8 is released'', link_Selftext = [], link_URL = ''https://golang.org'',
     link_IsSelf = False\<rparr>"

text \<open>Two subscriptions of the same channel and one that falls back to the guild; the
  send to the guild fails.\<close>

abbreviation sample_env :: bot_env where
  "sample_env \<equiv> \<lparr>env_host = ''yagpdb.xyz'', env_cut_string_short = (\<lambda>s n. take n s),
     env_get_config = (\<lambda>k. Inr [\<lparr>swi_Channel = ''c1'', swi_Guild = ''g1''\<rparr>,
                                \<lparr>swi_Channel = [], swi_Guild = ''g1''\<rparr>,
                                \<lparr>swi_Channel = ''c1'', swi_Guild = ''g1''\<rparr>]),
     env_send_ok = (\<lambda>c e. c \<noteq> ''g1'')\<rparr>"

text \<open>The malformed identifier of spec scenario 4, the UTF-8 bytes of two empty-set
  signs.\<close>

abbreviation bad_id :: reddit_id where
  "bad_id \<equiv> [CHR 0xE2, CHR 0x88, CHR 0x85, CHR 0xE2, CHR 0x88, CHR 0x85]"

text \<open>A run: a tick with two new posts, the stop request, a tick after the stop.\<close>

abbreviation two_ticks :: "feed_event list" where
  "two_ticks \<equiv> [TickFetched (Inr [sample_post ''b'', sample_post ''a'']), StopFeedSignal,
                 TickFetched (Inr [sample_post ''c''])]"

lemmas start_eval = runBot_start_def getLastIds_def GetRedisJson_def NewPostFetcher_def

section \<open>The poll loop and the delta/dedup engine\<close>

text \<open>C1: in a tick whose fetch succeeds, runBot hands to handlePost exactly the
  snapshot's posts whose id is not in the fetcher's window (with their multiplicities,
  nothing lost and nothing invented), newest first; the send attempts of the tick are
  those posts' deliveries, in that order.\<close>

theorem tick_delivers_exactly_new_posts:
  assumes "phase s = Running"
  shows "\<exists>new. attempts (effs (runBot_step env N (TickFetched (Inr snapshot)) s)) =
                 attempts (effs s) @ concat (map (post_deliveries env) new)
             \<and> mset new = filter_mset (\<lambda>l. link_ID l \<notin> set (LastLinks (fetcher s))) (mset snapshot)
             \<and> newest_first link_ID new"
proof (intro exI conjI)
  show "attempts (effs (runBot_step env N (TickFetched (Inr snapshot)) s)) =
      attempts (effs s) @ concat (map (post_deliveries env)
        (fst (compute_new_items N snapshot (LastLinks (fetcher s)))))"
    using assms by (rule runBot_step_attempts)
  show "mset (fst (compute_new_items N snapshot (LastLinks (fetcher s)))) =
      filter_mset (\<lambda>l. link_ID l \<notin> set (LastLinks (fetcher s))) (mset snapshot)"
    by (rule mset_new_items)
  show "newest_first link_ID (fst (compute_new_items N snapshot (LastLinks (fetcher s))))"
    by (simp add: compute_new_items_fst newest_first_sort_by_id)
qed

theorem tick_delivers_exactly_new_posts_witness:
  "phase (runBot_start Map.empty) = Running \<and>
   (\<exists>new. attempts (effs (runBot_step sample_env 2 (TickFetched (Inr [sample_post ''b''])) (runBot_start Map.empty))) =
            attempts (effs (runBot_start Map.empty)) @ concat (map (post_deliveries sample_env) new)
        \<and> mset new = filter_mset (\<lambda>l. link_ID l \<notin> set (LastLinks (fetcher (runBot_start Map.empty))))
                                (mset [sample_post ''b''])
        \<and> newest_first link_ID new)"
  using tick_delivers_exactly_new_posts [of "runBot_start Map.empty" sample_env 2 "[sample_post ''b'']"]
  by (simp add: start_eval)

text \<open>C2: truncation keeps the newest ids: an id of the new posts or of the old window
  that is dropped is no newer than any id that is kept.\<close>

theorem window_keeps_newest:
  assumes "x \<in> set (snd (compute_new_items N S L))"
    and "y \<in> link_ID ` set (fst (compute_new_items N S L)) \<union> set L"
    and "y \<notin> set (snd (compute_new_items N S L))"
  shows "go_int64 y \<le> go_int64 x"
proof -
  let ?Z = "sort_by_id (\<lambda>x. x) (map link_ID (fst (compute_new_items N S L)) @ L)"
  have W: "snd (compute_new_items N S L) = take N ?Z"
    by (rule compute_new_items_snd)
  have "y \<in> set ?Z" using assms(2) by auto
  then have "y \<in> set (drop N ?Z)"
    using assms(3) W by (metis Un_iff append_take_drop_id set_append)
  moreover have "x \<in> set (take N ?Z)"
    using assms(1) W by simp
  moreover have "newest_first (\<lambda>x. x) ?Z"
    by (rule newest_first_sort_by_id)
  ultimately show ?thesis
    using newest_first_drop by fastforce
qed

theorem window_keeps_newest_witness:
  "''b'' \<in> set (snd (compute_new_items 1 [sample_post ''b'', sample_post ''a''] []))
   \<and> ''a'' \<in> link_ID ` set (fst (compute_new_items 1 [sample_post ''b'', sample_post ''a''] [])) \<union> set []
   \<and> ''a'' \<notin> set (snd (compute_new_items 1 [sample_post ''b'', sample_post ''a''] []))
   \<and> go_int64 ''a'' \<le> go_int64 ''b''"
  using window_keeps_newest [of "''b''" 1 "[sample_post ''b'', sample_post ''a'']" "[]" "''a''"]
  by (simp add: engine_eval)

text \<open>C3: polling the same snapshot again delivers nothing, when the snapshot is a
  listing of at most \<open>N\<close> distinct posts, every id of the old window that is not in it
  is older than all of it, and the old window has no duplicates.\<close>

theorem compute_new_items_idempotent:
  assumes dS: "distinct (map link_ID S)" and len: "length S \<le> N" and dL: "distinct L"
    and older: "\<forall>y\<in>set L. y \<notin> link_ID ` set S \<longrightarrow> (\<forall>l\<in>set S. go_int64 y < go_int64 (link_ID l))"
  shows "fst (compute_new_items N S (snd (compute_new_items N S L))) = []"
proof -
  let ?I = "link_ID ` set S"
  let ?P = "\<lambda>y. y \<in> ?I"
  let ?M = "map link_ID (fst (compute_new_items N S L)) @ L"
  have W: "snd (compute_new_items N S L) = take N (sort_by_id (\<lambda>x. x) ?M)"
    by (rule compute_new_items_snd)
  have sep: "\<forall>x\<in>set ?M. \<forall>y\<in>set ?M. ?P x \<longrightarrow> \<not> ?P y \<longrightarrow> id_less x y"
    using older by (auto simp: id_less_iff set_new_items)
  have part: "sort_by_id (\<lambda>x. x) ?M =
      sort_by_id (\<lambda>x. x) (filter ?P ?M) @ sort_by_id (\<lambda>x. x) (filter (\<lambda>x. \<not> ?P x) ?M)"
    using sort_by_id_partition [OF sep] by simp
  have "filter ?P (map link_ID (fst (compute_new_items N S L))) = map link_ID (fst (compute_new_items N S L))"
    by (auto simp: set_new_items)
  then have "length (filter ?P ?M) = length (fresh_items L S) + length (filter ?P L)"
    by (simp add: compute_new_items_fst)
  also have "\<dots> = length S"
    by (rule length_fresh_plus_seen [OF dS dL])
  finally have "length (sort_by_id (\<lambda>x. x) (filter ?P ?M)) \<le> N"
    using len by simp
  then have "set (filter ?P ?M) \<subseteq> set (snd (compute_new_items N S L))"
    using W part take_append_prefix by (metis set_sort_by_id)
  moreover have "?I \<subseteq> set (filter ?P ?M)"
    by (auto simp: set_new_items)
  ultimately have "?I \<subseteq> set (snd (compute_new_items N S L))"
    by blast
  then have "fresh_items (snd (compute_new_items N S L)) S = []"
    by (auto simp: fresh_items_def filter_empty_conv)
  then show ?thesis
    by (simp add: compute_new_items_fst)
qed

theorem compute_new_items_idempotent_witness:
  "fst (compute_new_items 2 [sample_post ''b'', sample_post ''a'']
      (snd (compute_new_items 2 [sample_post ''b'', sample_post ''a''] [''1'']))) = []"
  using compute_new_items_idempotent [of "[sample_post ''b'', sample_post ''a'']" 2 "[''1'']"]
  by (simp add: parse_eval)

text \<open>C4: the window in redis is always the window in memory, so a restart
  (\<^verbatim>\<open>runBot\<close> again on the same store) resumes with exactly the fetcher the loop
  had: no seen id is forgotten across a restart.\<close>

theorem reachable_restart_resumes:
  "reachable env N client s \<Longrightarrow> fetcher (runBot_start (redis s)) = fetcher s"
proof -
  assume "reachable env N client s"
  then have "snd (getLastIds (redis s)) = LastLinks (fetcher s)"
    by (simp add: reachable_feed_inv [THEN feed_inv_def [THEN iffD1]])
  then show ?thesis
    by (cases "fetcher s") (auto simp: runBot_start_def NewPostFetcher_def split: prod.splits)
qed

theorem reachable_restart_resumes_witness:
  "reachable sample_env 2 Map.empty
     (runBot_step sample_env 2 (TickFetched (Inr [sample_post ''b''])) (runBot_start Map.empty))
   \<and> fetcher (runBot_start (redis (runBot_step sample_env 2 (TickFetched (Inr [sample_post ''b'']))
                                   (runBot_start Map.empty))))
     = fetcher (runBot_step sample_env 2 (TickFetched (Inr [sample_post ''b''])) (runBot_start Map.empty))"
proof
  show r: "reachable sample_env 2 Map.empty
     (runBot_step sample_env 2 (TickFetched (Inr [sample_post ''b''])) (runBot_start Map.empty))"
    by (rule reachable.step [OF reachable.start])
  show "fetcher (runBot_start (redis (runBot_step sample_env 2 (TickFetched (Inr [sample_post ''b'']))
                                   (runBot_start Map.empty))))
     = fetcher (runBot_step sample_env 2 (TickFetched (Inr [sample_post ''b''])) (runBot_start Map.empty))"
    by (rule reachable_restart_resumes [OF r])
qed

text \<open>C5: the stop handshake: in every reachable state the \<^verbatim>\<open>WaitGroup\<close> has been
  released at most once, and exactly when the loop has stopped.\<close>

theorem reachable_stop_acknowledged_once:
  "reachable env N client s \<Longrightarrow> wg_done s \<le> 1 \<and> (wg_done s = 1 \<longleftrightarrow> phase s = Stopped)"
  by (auto dest!: reachable_feed_inv simp: feed_inv_def)

theorem reachable_stop_acknowledged_once_witness:
  "reachable sample_env 2 Map.empty (runBot_step sample_env 2 StopFeedSignal (runBot_start Map.empty))
   \<and> wg_done (runBot_step sample_env 2 StopFeedSignal (runBot_start Map.empty)) \<le> 1
   \<and> (wg_done (runBot_step sample_env 2 StopFeedSignal (runBot_start Map.empty)) = 1
      \<longleftrightarrow> phase (runBot_step sample_env 2 StopFeedSignal (runBot_start Map.empty)) = Stopped)"
proof -
  have r: "reachable sample_env 2 Map.empty (runBot_step sample_env 2 StopFeedSignal (runBot_start Map.empty))"
    by (rule reachable.step [OF reachable.start])
  show ?thesis
    using r reachable_stop_acknowledged_once [OF r] by simp
qed

text \<open>C6: a failed fetch skips the tick: it logs the error and changes neither the
  window, nor the store, nor the deliveries.\<close>

theorem tick_fetch_error_skips:
  assumes "phase s = Running"
  shows "fetcher (runBot_step env N (TickFetched (Inl err)) s) = fetcher s
     \<and> redis (runBot_step env N (TickFetched (Inl err)) s) = redis s
     \<and> attempts (effs (runBot_step env N (TickFetched (Inl err)) s)) = attempts (effs s)
     \<and> logs (effs (runBot_step env N (TickFetched (Inl err)) s)) = logs (effs s) @ [LogFetchError]"
  using assms by (simp add: runBot_step_fetch_error)

theorem tick_fetch_error_skips_witness:
  "phase (runBot_start Map.empty) = Running
   \<and> fetcher (runBot_step sample_env 2 (TickFetched (Inl RedditApiError)) (runBot_start Map.empty))
       = fetcher (runBot_start Map.empty)
   \<and> redis (runBot_step sample_env 2 (TickFetched (Inl RedditApiError)) (runBot_start Map.empty))
       = redis (runBot_start Map.empty)
   \<and> attempts (effs (runBot_step sample_env 2 (TickFetched (Inl RedditApiError)) (runBot_start Map.empty)))
       = attempts (effs (runBot_start Map.empty))
   \<and> logs (effs (runBot_step sample_env 2 (TickFetched (Inl RedditApiError)) (runBot_start Map.empty)))
       = logs (effs (runBot_start Map.empty)) @ [LogFetchError]"
  using tick_fetch_error_skips [of "runBot_start Map.empty" sample_env 2 RedditApiError]
  by (simp add: start_eval)

section \<open>handlePost\<close>

text \<open>C7: when the watch configuration is found, handlePost returns success and
  attempts the post's embed exactly once per distinct destination channel, in the order
  of the configuration, whichever sends fail (spec scenarios 3 and 5).\<close>

theorem handlePost_delivers_once_per_channel:
  assumes "env_get_config env (config_key (link_Subreddit post)) = Inr config"
  shows "fst (handlePost env post eff) = Inr ()
     \<and> attempts (snd (handlePost env post eff)) =
         attempts eff @ map (\<lambda>ch. (ch, build_embed env post)) (remdups_first (map effective_channel config))
     \<and> distinct (map fst (drop (length (attempts eff)) (attempts (snd (handlePost env post eff)))))"
proof -
  have "fst (handlePost env post eff) = Inr ()"
    using assms by (simp add: handlePost_def Let_def)
  moreover have "attempts (snd (handlePost env post eff)) =
      attempts eff @ map (\<lambda>ch. (ch, build_embed env post)) (remdups_first (map effective_channel config))"
    using assms by (simp add: handlePost_attempts post_deliveries_def)
  ultimately show ?thesis
    by (simp add: comp_def)
qed

theorem handlePost_delivers_once_per_channel_witness:
  "fst (handlePost sample_env (sample_post ''b'') \<lparr>attempts = [], logs = []\<rparr>) = Inr ()
   \<and> attempts (snd (handlePost sample_env (sample_post ''b'') \<lparr>attempts = [], logs = []\<rparr>)) =
       [(''c1'', build_embed sample_env (sample_post ''b'')), (''g1'', build_embed sample_env (sample_post ''b''))]
   \<and> distinct (map fst (drop 0 (attempts (snd (handlePost sample_env (sample_post ''b'') \<lparr>attempts = [], logs = []\<rparr>)))))"
  using handlePost_delivers_once_per_channel [of sample_env "sample_post ''b''"
      "[\<lparr>swi_Channel = ''c1'', swi_Guild = ''g1''\<rparr>, \<lparr>swi_Channel = [], swi_Guild = ''g1''\<rparr>,
        \<lparr>swi_Channel = ''c1'', swi_Guild = ''g1''\<rparr>]" "\<lparr>attempts = [], logs = []\<rparr>"]
  by (simp add: effective_channel_def remdups_first_def)

text \<open>C8: a failed send is only logged: after the "found matched post" line, the log
  holds one error per channel whose send failed, in order, and nothing else.\<close>

theorem handlePost_logs_failed_sends:
  assumes "env_get_config env (config_key (link_Subreddit post)) = Inr config"
    and "remdups_first (map effective_channel config) \<noteq> []"
  shows "logs (snd (handlePost env post eff)) =
     logs eff @ LogFoundMatchedPost (length (remdups_first (map effective_channel config))) (link_Subreddit post)
       # map LogPostError (filter (\<lambda>ch. \<not> env_send_ok env ch (build_embed env post))
                                 (remdups_first (map effective_channel config)))"
  using assms by (simp add: handlePost_def collect_channels_remdups_first send_embeds_logs Let_def)

theorem handlePost_logs_failed_sends_witness:
  "logs (snd (handlePost sample_env (sample_post ''b'') \<lparr>attempts = [], logs = []\<rparr>)) =
     [LogFoundMatchedPost 2 ''golang'', LogPostError ''g1'']"
  using handlePost_logs_failed_sends [of sample_env "sample_post ''b''"
      "[\<lparr>swi_Channel = ''c1'', swi_Guild = ''g1''\<rparr>, \<lparr>swi_Channel = [], swi_Guild = ''g1''\<rparr>,
        \<lparr>swi_Channel = ''c1'', swi_Guild = ''g1''\<rparr>]" "\<lparr>attempts = [], logs = []\<rparr>"]
  by (simp add: effective_channel_def remdups_first_def)

text \<open>C9: when the configuration lookup fails, handlePost returns the error, sends
  nothing and logs the failure once.\<close>

theorem handlePost_config_error:
  assumes "env_get_config env (config_key (link_Subreddit post)) = Inl err"
  shows "fst (handlePost env post eff) = Inl err
     \<and> attempts (snd (handlePost env post eff)) = attempts eff
     \<and> logs (snd (handlePost env post eff)) = logs eff @ [LogConfigError]"
  using assms by (simp add: handlePost_def)

theorem handlePost_config_error_witness:
  "fst (handlePost (sample_env\<lparr>env_get_config := (\<lambda>k. Inl ConfigRedisError)\<rparr>) (sample_post ''b'')
          \<lparr>attempts = [], logs = []\<rparr>) = Inl ConfigRedisError
   \<and> attempts (snd (handlePost (sample_env\<lparr>env_get_config := (\<lambda>k. Inl ConfigRedisError)\<rparr>) (sample_post ''b'')
          \<lparr>attempts = [], logs = []\<rparr>)) = []
   \<and> logs (snd (handlePost (sample_env\<lparr>env_get_config := (\<lambda>k. Inl ConfigRedisError)\<rparr>) (sample_post ''b'')
          \<lparr>attempts = [], logs = []\<rparr>)) = [LogConfigError]"
  using handlePost_config_error [of "sample_env\<lparr>env_get_config := (\<lambda>k. Inl ConfigRedisError)\<rparr>"
      "sample_post ''b''" ConfigRedisError "\<lparr>attempts = [], logs = []\<rparr>"]
  by simp

section \<open>The order of reddit ids\<close>

text \<open>C10: an identifier ParseInt rejects with a syntax error (a malformed id such as
  the one of spec scenario 4, or the empty string) compares as the value 0: it sorts
  after every valid id of nonzero value and is never newer than a valid id, so the
  comparison is total; but it ties with the valid ids of value zero such as \<open>0\<close>,
  which the spec's "smaller than any parsable one" (section 4.1) does not allow.\<close>

theorem unparsable_id_compares_as_zero:
  assumes "snd (parse_int x) = Some ErrSyntax" and "y \<noteq> []" and "list_all valid36 y"
  shows "\<not> id_less x y \<and> (id_less y x \<longleftrightarrow> digits_value 0 y \<noteq> 0)"
  using go_int64_syntax_zero [OF assms(1)] go_int64_valid_sign [OF assms(2,3)]
  by (auto simp: id_less_iff)

theorem unparsable_id_compares_as_zero_witness:
  "\<not> id_less bad_id ''5'' \<and> id_less ''5'' bad_id \<and> \<not> id_less ''0'' bad_id"
  using unparsable_id_compares_as_zero [of bad_id "''5''"] unparsable_id_compares_as_zero [of bad_id "''0''"]
  by (simp add: parse_eval valid36_def)

section \<open>Decoding identifiers\<close>

text \<open>C11: ParseInt decodes a base-36 numeral to its value while it fits int64 and
  clamps larger ones to MaxInt64: the 64-bit overflow checks of ParseUint never let a
  wrapped value through.\<close>

theorem go_int64_unsigned:
  "s \<noteq> [] \<Longrightarrow> list_all valid36 s \<Longrightarrow>
   go_int64 s = (if digits_value 0 s < 2 ^ 63 then int (digits_value 0 s) else 2 ^ 63 - 1)"
  by (simp add: go_int64_def parse_int_unsigned sint_of_nat_small)

theorem go_int64_unsigned_witness: "go_int64 ''zz'' = 1295"
  using go_int64_unsigned [of "''zz''"]
  by (simp add: valid36_def digit_val_def lower_def)

text \<open>C12: decoding the base-36 encoding of any value below \<open>2^63\<close> gives the value
  back, without error.\<close>

theorem parse_int_encode36_roundtrip:
  "v < 2 ^ 63 \<Longrightarrow> parse_int (encode36 v) = (of_nat v, None) \<and> go_int64 (encode36 v) = int v"
  by (simp add: parse_int_unsigned encode36_nonempty encode36_valid digits_value_encode36
      go_int64_def sint_of_nat_small)

theorem parse_int_encode36_roundtrip_witness:
  "parse_int (encode36 1295) = (1295, None) \<and> go_int64 (encode36 1295) = 1295"
  using parse_int_encode36_roundtrip [of 1295] by simp

text \<open>C13: whenever ParseUint reports success, its result is the exact base-36 value
  of the input, which is below \<open>2^64\<close>.\<close>

theorem parse_uint_success_exact:
  assumes "parse_uint s = (n, None)"
  shows "unat n = digits_value 0 s \<and> digits_value 0 s < 2 ^ 64"
proof -
  have ne: "s \<noteq> []"
    using assms by (auto simp: parse_uint_def)
  have valid: "list_all valid36 s"
    using assms ne by (simp add: parse_uint_def parse_uint_digits_ok_valid)
  have "parse_uint s = (if digits_value 0 s < 2 ^ 64 then (of_nat (digits_value 0 s), None)
                             else (max_uint64, Some ErrRange))"
    by (rule parse_uint_value [OF ne valid])
  then show ?thesis
    using assms by (auto simp: unat_of_nat split: if_splits)
qed

theorem parse_uint_success_exact_witness:
  "unat (fst (parse_uint ''10'')) = digits_value 0 ''10'' \<and> digits_value 0 ''10'' < 2 ^ 64"
  using parse_uint_success_exact [of "''10''" "fst (parse_uint ''10'')"]
  by (simp add: parse_eval)

section \<open>Persistence of the window\<close>

text \<open>C14: what the fetcher writes with \<^verbatim>\<open>SetRedisJson\<close> under
  \<^verbatim>\<open>reddit_last_links\<close> is what getLastIds reads back, with no error logged.\<close>

theorem getLastIds_SetRedisJson:
  "getLastIds (SetRedisJson client last_links_key v) = ([], v)"
  by (simp add: getLastIds_def GetRedisJson_SetRedisJson)

text \<open>C15: \<^verbatim>\<open>getLastIds\<close> returns what \<^verbatim>\<open>json.Unmarshal\<close> left in
  \<^verbatim>\<open>result\<close> even when it reports an error.  When the stored buffer is a JSON array
  of scalars, runBot resumes with a window holding each string element and the empty
  string for every other element; it logs the retrieval error exactly when some element
  is a number or a boolean, and logs that it resumes whenever the array is nonempty.
  So a buffer such as \<open>[1, 2]\<close> starts the feed with the window \<open>["", ""]\<close> and both
  log lines.\<close>

theorem runBot_start_partial_buffer:
  "LastLinks (fetcher (runBot_start (client(last_links_key \<mapsto> encode_scalars vs)))) = map scalar_value vs
   \<and> logs (effs (runBot_start (client(last_links_key \<mapsto> encode_scalars vs))))
       = (if list_ex scalar_wrong vs then [LogRetrieveBufferError] else [])
         @ (if vs \<noteq> [] then [LogFoundLastIds] else [])"
  by (simp add: start_eval decode_encode_scalars)

theorem runBot_start_partial_buffer_witness:
  "LastLinks (fetcher (runBot_start (Map.empty(last_links_key \<mapsto> encode_scalars [JSNat 1, JSNat 2])))) = [[], []]
   \<and> logs (effs (runBot_start (Map.empty(last_links_key \<mapsto> encode_scalars [JSNat 1, JSNat 2]))))
       = [LogRetrieveBufferError, LogFoundLastIds]"
  using runBot_start_partial_buffer [of Map.empty "[JSNat 1, JSNat 2]"]
  by (simp add: scalar_value_def scalar_wrong_def)

text \<open>C16: Go's \<^verbatim>\<open>sort.insertionSort(data, a, b)\<close> run through the
  \<^verbatim>\<open>Less\<close> and \<^verbatim>\<open>Swap\<close> methods of a \<^verbatim>\<open>RedditIdSlice\<close>, on any range within
  the slice (\<^verbatim>\<open>sort.Sort\<close> calls it on the whole slice, or on ranges of at most 12
  elements), never panics and sorts the range as the reference order
  \<^const>\<open>sort_by_id\<close> does: newest first, ties (equal decoded values, malformed ids
  among them) in their input order; the elements outside the range stay where they are.\<close>

theorem insertionSort_sort_by_id:
  assumes "a \<le> b" and "b \<le> length r"
  shows "insertionSort r a b
           = Some (take a r @ sort_by_id (\<lambda>x. x) (take (b - a) (drop a r)) @ drop b r)"
proof -
  define P where "P = take a r"
  define M where "M = take (b - a) (drop a r)"
  define Q where "Q = drop b r"
  have "M @ Q = drop a r"
    using assms(1) unfolding M_def Q_def by (metis append_take_drop_id drop_drop le_add_diff_inverse2)
  then have r: "P @ M @ Q = r" unfolding P_def by simp
  have len: "length P = a" "a + length M = b"
    using assms unfolding P_def M_def by simp_all
  have "insertionSort (P @ M @ Q) (length P) (length P + length M)
      = map_option (\<lambda>m. P @ m @ Q) (insertionSort M 0 (length M))"
    by (rule insertionSort_shift)
  then show ?thesis
    by (simp only: r len insertionSort_whole) (simp add: P_def M_def Q_def)
qed

theorem insertionSort_sort_by_id_witness:
  "insertionSort [''1'', ''3'', ''2'', ''5'', ''4''] 1 4 = Some [''1'', ''5'', ''3'', ''2'', ''4'']"
  using insertionSort_sort_by_id [of 1 4 "[''1'', ''3'', ''2'', ''5'', ''4'']"]
  by (simp add: id_less_iff parse_eval)

text \<open>C22: on a range that runs past the end of the slice, insertionSort panics (index
  out of range in \<^verbatim>\<open>Less\<close>) as soon as the outer loop reaches the end: the model
  returns \<^const>\<open>None\<close>, whatever the ids are.\<close>

theorem insertionSort_out_of_range:
  "Suc a < b \<Longrightarrow> length r < b \<Longrightarrow> insertionSort r a b = None"
  by (simp add: insertionSort_def insertion_outer_out_of_range)

theorem insertionSort_out_of_range_witness: "insertionSort [''b'', ''a''] 0 3 = None"
  using insertionSort_out_of_range [of 0 3 "[''b'', ''a'']"] by simp

text \<open>C17: a sign in front of a valid numeral: \<^verbatim>\<open>+\<close> is ignored, \<^verbatim>\<open>-\<close> negates
  the value, which clamps to \<open>-2^63\<close> (the int64 minimum) beyond it; so an id written
  with a minus sign compares as older than every unsigned valid id.\<close>

theorem go_int64_signed:
  "s \<noteq> [] \<Longrightarrow> list_all valid36 s \<Longrightarrow>
   go_int64 (CHR ''+'' # s) = go_int64 s \<and>
   go_int64 (CHR ''-'' # s) = (if digits_value 0 s \<le> 2 ^ 63 then - int (digits_value 0 s) else - (2 ^ 63))"
  using sint_neg_of_nat [of "2 ^ 63"]
  by (simp add: go_int64_def parse_int_minus parse_int_plus sint_neg_of_nat)

theorem go_int64_signed_witness: "go_int64 ''+zz'' = go_int64 ''zz'' \<and> go_int64 ''-zz'' = -1295"
  using go_int64_signed [of "''zz''"] by (simp add: valid36_def digit_val_def lower_def)

text \<open>C18: when the window has no repeated id and the snapshot has none either, a tick
  leaves a window without repeated ids, and the window stored in redis is that window.\<close>

theorem tick_window_distinct:
  assumes "phase s = Running" and "distinct (LastLinks (fetcher s))" and "distinct (map link_ID snapshot)"
  shows "distinct (LastLinks (fetcher (runBot_step env N (TickFetched (Inr snapshot)) s)))
       \<and> snd (getLastIds (redis (runBot_step env N (TickFetched (Inr snapshot)) s)))
           = LastLinks (fetcher (runBot_step env N (TickFetched (Inr snapshot)) s))"
  using assms by (simp add: runBot_step_fetcher runBot_step_redis window_distinct getLastIds_def GetRedisJson_SetRedisJson)

theorem tick_window_distinct_witness:
  "distinct (LastLinks (fetcher (runBot_step sample_env 2 (TickFetched (Inr [sample_post ''b'', sample_post ''a''])) (runBot_start Map.empty))))"
  using tick_window_distinct [of "runBot_start Map.empty" "[sample_post ''b'', sample_post ''a'']" sample_env 2]
  by (simp add: start_eval)

text \<open>C19: on ids written the way reddit writes them (lower-case base-36, no leading
  zero, at most twelve digits, so the value fits an int64), \<^verbatim>\<open>Less\<close> is shortlex
  order: a longer id is newer, and ids of equal length compare by their bytes.  The
  witness shows where this differs from plain string order, which the spec warns
  against: \<open>10\<close> is newer than \<open>z\<close> though it is lexicographically smaller.\<close>

theorem id_less_canonical_shortlex:
  assumes "canonical_id x" and "canonical_id y"
  shows "id_less x y \<longleftrightarrow> shortlex_newer x y"
proof -
  have lx: "list_all canonical_digit x" and ly: "list_all canonical_digit y"
    using assms by (simp_all add: canonical_id_def)
  have "id_less x y \<longleftrightarrow> digits_value 0 y < digits_value 0 x"
    by (simp add: id_less_iff go_int64_canonical assms)
  also have "\<dots> \<longleftrightarrow> shortlex_newer x y"
  proof (cases "length x = length y")
    case True
    then show ?thesis using digits_value_lex [of y x] lx ly by (simp add: shortlex_newer_def)
  next
    case False
    then consider "length y < length x" | "length x < length y" by linarith
    then show ?thesis
      using canonical_longer_greater [OF assms(1), of y] canonical_longer_greater [OF assms(2), of x]
      by cases (auto simp: shortlex_newer_def)
  qed
  finally show ?thesis .
qed

theorem id_less_canonical_shortlex_witness:
  "id_less ''10'' ''z'' \<and> shortlex_newer ''10'' ''z'' \<and> ord_class.lexordp (map (of_char :: char \<Rightarrow> nat) ''10'') (map of_char ''z'')"
  using id_less_canonical_shortlex [of "''10''" "''z''"]
  by (simp add: canonical_id_def canonical_digit_def shortlex_newer_def)

text \<open>C20: at most once delivery over a whole run: while the window can hold every id
  the run sees and no snapshot repeats an id, no id is handed to handlePost twice in the
  run, nor any id of the window the run started from.\<close>

theorem run_links_at_most_once:
  "window_fits N s evs \<Longrightarrow>
   distinct (map link_ID (run_links env N s evs))
   \<and> link_ID ` set (run_links env N s evs) \<inter> set (LastLinks (fetcher s)) = {}"
proof (induction evs arbitrary: s)
  case Nil
  then show ?case by simp
next
  case (Cons ev evs)
  note w = window_fits_Cons(1-3) [OF Cons.prems] window_fits_Cons(4) [OF Cons.prems, where env = env]
  have L': "set (LastLinks (fetcher (runBot_step env N ev s)))
      = set (LastLinks (fetcher s)) \<union> link_ID ` set (tick_links N ev s)"
    using runBot_step_window [OF w(1-3)] by simp
  show ?case
    using Cons.IH [OF w(4)] L' tick_links_fresh [of N ev s] tick_links_distinct [OF w(2), of N s]
    by auto
qed

theorem run_links_at_most_once_witness:
  "distinct (map link_ID (run_links sample_env 3 (runBot_start Map.empty) two_ticks))
   \<and> link_ID ` set (run_links sample_env 3 (runBot_start Map.empty) two_ticks)
       \<inter> set (LastLinks (fetcher (runBot_start Map.empty))) = {}"
  using run_links_at_most_once [of 3 "runBot_start Map.empty" two_ticks sample_env]
  by (simp add: window_fits_def start_eval event_distinct_def event_ids_def)

text \<open>C21: refinement of the spec's feed: under the same hypothesis a run of the loop
  implements the abstract feed (every id ever seen, stopped or not; a tick delivers the
  snapshot items not seen before): the abstract run from the abstraction of the start
  state ends in the abstraction of the final state, and delivers exactly the multiset of
  links the loop hands to handlePost.\<close>

theorem runBot_run_refines_spec:
  "window_fits N s evs \<Longrightarrow>
   spec_run evs (abs_state s) = (abs_state (runBot_run env N s evs), mset (run_links env N s evs))"
proof (induction evs arbitrary: s)
  case Nil
  then show ?case by simp
next
  case (Cons ev evs)
  note w = window_fits_Cons(1-3) [OF Cons.prems] window_fits_Cons(4) [OF Cons.prems, where env = env]
  show ?case
    using runBot_step_refines [OF w(1-3), of env] Cons.IH [OF w(4)] by simp
qed

theorem runBot_run_refines_spec_witness:
  "spec_run two_ticks (abs_state (runBot_start Map.empty))
     = (abs_state (runBot_run sample_env 3 (runBot_start Map.empty) two_ticks),
        mset (run_links sample_env 3 (runBot_start Map.empty) two_ticks))"
  using runBot_run_refines_spec [of 3 "runBot_start Map.empty" two_ticks sample_env]
  by (simp add: window_fits_def start_eval event_distinct_def event_ids_def)

text \<open>C23: the stop handshake completes: in a run from a running loop that has not
  released the \<^verbatim>\<open>WaitGroup\<close>, once the stop request arrives, after any ticks and
  followed by any events, the loop ends stopped with \<^verbatim>\<open>wg.Done\<close> called exactly
  once, so the \<^verbatim>\<open>wg.Wait\<close> of \<^verbatim>\<open>StopFeed\<close> returns.\<close>

theorem stop_request_released:
  assumes "StopFeedSignal \<in> set evs" and "phase s = Running" and "wg_done s = 0"
  shows "phase (runBot_run env N s evs) = Stopped \<and> wg_done (runBot_run env N s evs) = 1"
  using assms
proof (induction evs arbitrary: s)
  case Nil
  then show ?case by simp
next
  case (Cons ev evs)
  show ?case
  proof (cases "ev = StopFeedSignal")
    case True
    then show ?thesis
      using Cons.prems by (simp add: runBot_step_stop runBot_run_Stopped)
  next
    case False
    then show ?thesis
      using Cons.IH Cons.prems runBot_step_not_stop [OF False, of s env N] by simp
  qed
qed

theorem stop_request_released_witness:
  "phase (runBot_run sample_env 3 (runBot_start Map.empty) two_ticks) = Stopped
   \<and> wg_done (runBot_run sample_env 3 (runBot_start Map.empty) two_ticks) = 1"
  using stop_request_released [of two_ticks "runBot_start Map.empty" sample_env 3]
  by (simp add: start_eval)

text \<open>C24: termination of the goroutine's loop: the unbounded \<^verbatim>\<open>for\<close>/\<^verbatim>\<open>select\<close> of
  runBot, run on an infinite stream of events, returns if and only if a stop request
  occurs in the stream; on a stream of ticks only, it runs forever (the witness: a
  stream of failing fetches).\<close>

theorem runBot_loop_returns_iff:
  "(\<exists>r. runBot_loop env N evs s = Some r) \<longleftrightarrow> StopFeedSignal \<in> sset evs"
proof
  assume "\<exists>r. runBot_loop env N evs s = Some r"
  then show "StopFeedSignal \<in> sset evs" using runBot_loop_returns_stop by blast
next
  assume "StopFeedSignal \<in> sset evs"
  from sset_first_split [OF this] obtain pre rest
    where "evs = pre @- StopFeedSignal ## rest" "StopFeedSignal \<notin> set pre" by blast
  then show "\<exists>r. runBot_loop env N evs s = Some r" using runBot_loop_prefix by blast
qed

theorem runBot_loop_returns_iff_witness:
  "runBot_loop sample_env 3 (sconst (TickFetched (Inl RedditApiError))) (runBot_start Map.empty) = None
   \<and> runBot_loop sample_env 3 (TickFetched (Inl RedditApiError) ## sconst StopFeedSignal) (runBot_start Map.empty) \<noteq> None"
  using runBot_loop_returns_iff [of sample_env 3 "sconst (TickFetched (Inl RedditApiError))" "runBot_start Map.empty"]
    runBot_loop_returns_iff [of sample_env 3 "TickFetched (Inl RedditApiError) ## sconst StopFeedSignal" "runBot_start Map.empty"]
  by auto

text \<open>C25: the feed started with \<^verbatim>\<open>StartFeed\<close> (the goroutine: setup and loop) and
  stopped with \<^verbatim>\<open>StopFeed\<close> after the events \<open>pre\<close>, which hold no other stop
  request: the goroutine returns the state the finite run over \<open>pre\<close> and the
  stop reaches from the start on the stored window, stopped and with \<^verbatim>\<open>wg.Done\<close>
  called once, whatever follows the stop request.  So the finite runs of C20, C21 and C23
  are exactly the behaviours of the real loop.\<close>

theorem runBot_returns_after_stop:
  assumes "StopFeedSignal \<notin> set pre"
  shows "\<exists>s'. StartFeed env N client (StopFeed pre rest) = Some s'
            \<and> s' = runBot_run env N (runBot_start client) (pre @ [StopFeedSignal])
            \<and> phase s' = Stopped \<and> wg_done s' = 1"
proof -
  have start: "phase (runBot_start client) = Running" "wg_done (runBot_start client) = 0"
    by (simp_all add: runBot_start_def split: prod.splits)
  have "phase (runBot_run env N (runBot_start client) pre) = Running
      \<and> wg_done (runBot_run env N (runBot_start client) pre) = 0"
    using runBot_run_no_stop [OF assms start(1)] start(2) by simp
  then show ?thesis
    using runBot_loop_prefix [OF assms]
    by (simp add: StartFeed_def StopFeed_def runBot_def runBot_run_append runBot_step_stop)
qed

theorem runBot_returns_after_stop_witness:
  "\<exists>s'. StartFeed sample_env 3 Map.empty (StopFeed [TickFetched (Inr [sample_post ''b''])] (sconst StopFeedSignal)) = Some s'
        \<and> s' = runBot_run sample_env 3 (runBot_start Map.empty) [TickFetched (Inr [sample_post ''b'']), StopFeedSignal]
        \<and> phase s' = Stopped \<and> wg_done s' = 1"
  using runBot_returns_after_stop [of "[TickFetched (Inr [sample_post ''b''])]" sample_env 3 Map.empty "sconst StopFeedSignal"]
  by simp

text \<open>C26: the user agent round trip: when the client id read from
  \<^verbatim>\<open>YAGPDB_REDDIT_CLIENTID\<close> has no colon, the string \<^verbatim>\<open>UserAgent\<close> formats is in
  reddit's format \<open>platform:app id:version (by /u/user)\<close> and gives back the platform
  \<open>YAGPDB\<close>, the client id and the version.  An unset variable gives the empty id
  (the witness shows a set one).\<close>

theorem UserAgent_parse_roundtrip:
  "CHR '':'' \<notin> set (ClientID cred) \<Longrightarrow>
   parse_user_agent (UserAgent cred version) = Some (''YAGPDB'', ClientID cred, version)"
  unfolding UserAgent_split parse_user_agent_frame
  using split_first_colon [of "ClientID cred" version] by (simp add: Let_def)

theorem UserAgent_parse_roundtrip_witness:
  "parse_user_agent (UserAgent (load_credentials (\<lambda>k. if k = ''YAGPDB_REDDIT_CLIENTID'' then Some ''abc'' else None)) ''1.0'')
     = Some (''YAGPDB'', ''abc'', ''1.0'')"
  using UserAgent_parse_roundtrip [of "load_credentials (\<lambda>k. if k = ''YAGPDB_REDDIT_CLIENTID'' then Some ''abc'' else None)" "''1.0''"]
  by (simp add: load_credentials_def Getenv_def)
end
